(* ===== verification/QS_Prelude.thy ===== *)
theory QS_Prelude
  imports Main "HOL-Library.Word"
begin

text \<open>
  Shared vocabulary of the development.
  \<^item> Names for the machine types of the C++ code (\<open>uint8_t\<close> to \<open>uint64_t\<close> as words of
    that width, \<open>std::vector<uint8_t>\<close> as a list of bytes) and the conversion to a
    signed 32-bit \<open>int\<close>.
  \<^item> The result type \<open>'a run\<close> of code that may fail to return: \<open>Inl\<close> names the
    reason (an exception that no frame catches, a null or dangling access, a loop that
    used up its fuel), \<open>Inr\<close> carries the result. \<open>rbind\<close> sequences such code and
    \<open>ensures\<close> states what holds whenever it returns.
  \<^item> \<open>std::unordered_map\<close> as an association list in iteration order, with the laws its
    clients use stated once in the locale \<open>umap\<close>.
  \<^item> Decimal and hexadecimal rendering of numbers as \<open>std::to_string\<close>, \<open>std::hex\<close>
    and \<open>std::atoi\<close> do it.
\<close>

section \<open>Machine types\<close>

type_synonym u8 = "8 word"
type_synonym u16 = "16 word"
type_synonym u32 = "32 word"
type_synonym u64 = "64 word"
type_synonym bytes = "u8 list"

text \<open>Conversion of an integer to \<open>int\<close> (\<open>int32_t\<close>): keep 32 bits, read as two's complement.\<close>

definition to_i32 :: "int \<Rightarrow> int" where
  "to_i32 n = signed_take_bit 31 n"

lemma to_i32_bounds: "- (2 ^ 31) \<le> to_i32 n \<and> to_i32 n < 2 ^ 31"
  unfolding to_i32_def
  using signed_take_bit_int_greater_eq_minus_exp [of 31 n]
    signed_take_bit_int_less_exp [of 31 n] by simp

lemma to_i32_id: "- (2 ^ 31) \<le> n \<Longrightarrow> n < 2 ^ 31 \<Longrightarrow> to_i32 n = n"
  unfolding to_i32_def by (rule signed_take_bit_int_eq_self) simp_all

section \<open>Results of code that may not return\<close>

datatype abort =
    Diverges              \<comment> \<open>a loop used up its fuel\<close>
  | Uncaught string       \<comment> \<open>an exception leaves the thread function: std::terminate\<close>
  | NullDeref             \<comment> \<open>a null pointer is passed where an object is required\<close>
  | UseAfterFree          \<comment> \<open>freed memory is read\<close>
  | OutOfBounds           \<comment> \<open>a write or read past the end of an array\<close>

type_synonym 'a run = "abort + 'a"

definition rbind :: "'a run \<Rightarrow> ('a \<Rightarrow> 'b run) \<Rightarrow> 'b run" where
  "rbind m f = (case m of Inl e \<Rightarrow> Inl e | Inr x \<Rightarrow> f x)"

definition ensures :: "'a run \<Rightarrow> ('a \<Rightarrow> bool) \<Rightarrow> bool" where
  "ensures m P \<longleftrightarrow> (case m of Inl e \<Rightarrow> True | Inr x \<Rightarrow> P x)"

lemma rbind_simps [simp]:
  "rbind (Inr x) f = f x" "rbind (Inl e) f = Inl e"
  by (simp_all add: rbind_def)

lemma rbind_eq_Inr: "rbind m f = Inr y \<longleftrightarrow> (\<exists>x. m = Inr x \<and> f x = Inr y)"
  by (cases m) simp_all

lemma rbindE:
  assumes "rbind m f = Inr y"
  obtains x where "m = Inr x" and "f x = Inr y"
  using assms by (auto simp: rbind_eq_Inr)

lemma rbind_pairE:
  assumes "rbind m (\<lambda>(a, b). f a b) = Inr y"
  obtains a b where "m = Inr (a, b)" and "f a b = Inr y"
  using assms by (auto simp: rbind_eq_Inr)

lemma rbind_eq_Inl:
  "rbind m f = Inl e \<longleftrightarrow> m = Inl e \<or> (\<exists>x. m = Inr x \<and> f x = Inl e)"
  by (cases m) simp_all

lemma rbind_assoc: "rbind (rbind m f) g = rbind m (\<lambda>x. rbind (f x) g)"
  by (cases m) simp_all

lemma ensures_simps [simp]: "ensures (Inr x) P \<longleftrightarrow> P x" "ensures (Inl e) P"
  by (simp_all add: ensures_def)

lemma ensures_iff: "ensures m P \<longleftrightarrow> (\<forall>x. m = Inr x \<longrightarrow> P x)"
  by (cases m) simp_all

lemma ensuresD: "ensures m P \<Longrightarrow> m = Inr x \<Longrightarrow> P x"
  by simp

lemma ensuresI: "(\<And>x. m = Inr x \<Longrightarrow> P x) \<Longrightarrow> ensures m P"
  by (simp add: ensures_iff)

lemma ensures_bind:
  "ensures m Q \<Longrightarrow> (\<And>x. Q x \<Longrightarrow> ensures (f x) P) \<Longrightarrow> ensures (rbind m f) P"
  by (cases m) simp_all

lemma ensures_rbind_iff: "ensures (rbind m f) P \<longleftrightarrow> ensures m (\<lambda>x. ensures (f x) P)"
  by (cases m) simp_all

lemma ensures_mono: "ensures m P \<Longrightarrow> (\<And>x. P x \<Longrightarrow> Q x) \<Longrightarrow> ensures m Q"
  by (cases m) simp_all

lemma ensures_conj: "ensures m P \<Longrightarrow> ensures m Q \<Longrightarrow> ensures m (\<lambda>x. P x \<and> Q x)"
  by (cases m) simp_all

text \<open>\<open>frame_simps\<close> collects what an operation leaves unchanged.\<close>

named_theorems frame_simps

section \<open>Unordered maps\<close>

text \<open>
  The order of the list is the iteration order of the container. C++ leaves that order
  open, so nothing below depends on where a new key is put.
\<close>

type_synonym ('k, 'v) umap = "('k \<times> 'v) list"

definition um_find :: "'k \<Rightarrow> ('k, 'v) umap \<Rightarrow> 'v option" where
  "um_find k m = map_of m k"

fun um_replace :: "'k \<Rightarrow> 'v \<Rightarrow> ('k, 'v) umap \<Rightarrow> ('k, 'v) umap" where
  "um_replace k v [] = []"
| "um_replace k v ((k', v') # m) =
     (if k' = k then (k, v) # m else (k', v') # um_replace k v m)"

definition um_put :: "'k \<Rightarrow> 'v \<Rightarrow> ('k, 'v) umap \<Rightarrow> ('k, 'v) umap" where
  "um_put k v m = (case um_find k m of Some _ \<Rightarrow> um_replace k v m | None \<Rightarrow> (k, v) # m)"

definition um_erase :: "'k \<Rightarrow> ('k, 'v) umap \<Rightarrow> ('k, 'v) umap" where
  "um_erase k m = filter (\<lambda>(k', v'). k' \<noteq> k) m"

definition um_inv :: "('k, 'v) umap \<Rightarrow> bool" where
  "um_inv m \<longleftrightarrow> distinct (map fst m)"

text \<open>
  What the connection and the sender rely on: lookups after \<open>put\<close> and \<open>erase\<close>, and that
  both keep the container's invariant (one entry per key).
\<close>

locale umap =
  fixes empty :: "'m"
    and find :: "'k \<Rightarrow> 'm \<Rightarrow> 'v option"
    and put :: "'k \<Rightarrow> 'v \<Rightarrow> 'm \<Rightarrow> 'm"
    and erase :: "'k \<Rightarrow> 'm \<Rightarrow> 'm"
    and inv :: "'m \<Rightarrow> bool"
  assumes find_empty: "find k empty = None"
    and find_put: "find k' (put k v m) = (if k' = k then Some v else find k' m)"
    and find_erase: "find k' (erase k m) = (if k' = k then None else find k' m)"
    and inv_empty: "inv empty"
    and inv_put: "inv m \<Longrightarrow> inv (put k v m)"
    and inv_erase: "inv m \<Longrightarrow> inv (erase k m)"
begin

lemma find_put_same: "find k (put k v m) = Some v"
  by (simp add: find_put)

lemma find_put_other: "k' \<noteq> k \<Longrightarrow> find k' (put k v m) = find k' m"
  by (simp add: find_put)

lemma find_erase_other: "k' \<noteq> k \<Longrightarrow> find k' (erase k m) = find k' m"
  by (simp add: find_erase)

text \<open>The find-or-insert idiom of \<open>GetIncomingStream\<close> and \<open>GetOutgoingStream\<close>.\<close>

lemma get_or_create:
  "find k' (case find k m of Some v \<Rightarrow> m | None \<Rightarrow> put k v0 m) =
     (if k' = k then Some (case find k m of Some v \<Rightarrow> v | None \<Rightarrow> v0) else find k' m)"
  by (simp add: find_put split: option.splits)

lemma inv_get_or_create: "inv m \<Longrightarrow> inv (case find k m of Some v \<Rightarrow> m | None \<Rightarrow> put k v0 m)"
  by (simp add: inv_put split: option.splits)

lemma erase_after_put: "find k' (erase k (put k v m)) = find k' (erase k m)"
  by (simp add: find_put find_erase)

end

lemma um_replace_keys [simp]: "map fst (um_replace k v m) = map fst m"
  by (induction k v m rule: um_replace.induct) auto

lemma map_of_um_replace:
  "map_of (um_replace k v m) x =
     (if x = k \<and> map_of m k \<noteq> None then Some v else map_of m x)"
  by (induction k v m rule: um_replace.induct) auto

lemma um_find_put: "um_find k' (um_put k v m) = (if k' = k then Some v else um_find k' m)"
  by (simp add: um_find_def um_put_def map_of_um_replace split: option.splits)

lemma um_put_new: "um_find k m = None \<Longrightarrow> um_put k v m = (k, v) # m"
  by (simp add: um_put_def)

lemma um_put_old: "um_find k m = Some w \<Longrightarrow> um_put k v m = um_replace k v m"
  by (simp add: um_put_def)

lemma um_find_erase: "um_find k' (um_erase k m) = (if k' = k then None else um_find k' m)"
  unfolding um_find_def um_erase_def by (induction m) auto

lemma um_inv_put: "um_inv m \<Longrightarrow> um_inv (um_put k v m)"
  by (auto simp: um_inv_def um_put_def um_find_def map_of_eq_None_iff split: option.splits)

lemma um_inv_erase: "um_inv m \<Longrightarrow> um_inv (um_erase k m)"
  unfolding um_inv_def um_erase_def by (induction m) auto

interpretation um: umap "[]" um_find um_put um_erase um_inv
  by unfold_locales
     (simp_all add: um_find_put um_find_erase um_inv_put um_inv_erase, simp_all add: um_find_def um_inv_def)

lemma um_find_Some_in: "um_find k m = Some v \<Longrightarrow> (k, v) \<in> set m"
  unfolding um_find_def by (rule map_of_SomeD)

lemma um_find_iff: "um_inv m \<Longrightarrow> um_find k m = Some v \<longleftrightarrow> (k, v) \<in> set m"
  by (simp add: um_find_def um_inv_def)

lemma um_find_None_iff: "um_find k m = None \<longleftrightarrow> k \<notin> fst ` set m"
  by (simp add: um_find_def map_of_eq_None_iff)

lemma um_erase_set: "set (um_erase k m) = {(k', v') \<in> set m. k' \<noteq> k}"
  by (auto simp: um_erase_def)

end
