(* ===== verification/QS_Errors.thy ===== *)
theory QS_Errors
  imports QS_Prelude
begin

text \<open>
  The error enumerations of quiche that the code names, and the two functions that turn a
  return code into its macro's name (\<open>quiche_h3_error_to_string\<close>,
  \<open>quiche_error_to_string\<close>). The numeric values come from \<open>quiche.h\<close>, which is not part
  of the repository: they are the parameter \<open>code\<close>. A C++ \<open>switch\<close> with two equal case
  labels does not compile, so the values of one enumeration are distinct (\<open>inj code\<close>).
\<close>

section \<open>HTTP/3 errors\<close>

datatype h3_err =
    QUICHE_H3_ERR_DONE
  | QUICHE_H3_ERR_BUFFER_TOO_SHORT
  | QUICHE_H3_ERR_INTERNAL_ERROR
  | QUICHE_H3_ERR_EXCESSIVE_LOAD
  | QUICHE_H3_ERR_ID_ERROR
  | QUICHE_H3_ERR_STREAM_CREATION_ERROR
  | QUICHE_H3_ERR_CLOSED_CRITICAL_STREAM
  | QUICHE_H3_ERR_MISSING_SETTINGS
  | QUICHE_H3_ERR_FRAME_UNEXPECTED
  | QUICHE_H3_ERR_FRAME_ERROR
  | QUICHE_H3_ERR_QPACK_DECOMPRESSION_FAILED
  | QUICHE_H3_ERR_STREAM_BLOCKED
  | QUICHE_H3_ERR_SETTINGS_ERROR
  | QUICHE_H3_ERR_REQUEST_REJECTED
  | QUICHE_H3_ERR_REQUEST_CANCELLED
  | QUICHE_H3_ERR_REQUEST_INCOMPLETE
  | QUICHE_H3_ERR_MESSAGE_ERROR
  | QUICHE_H3_ERR_CONNECT_ERROR
  | QUICHE_H3_ERR_VERSION_FALLBACK
  | QUICHE_H3_TRANSPORT_ERR_DONE
  | QUICHE_H3_TRANSPORT_ERR_BUFFER_TOO_SHORT
  | QUICHE_H3_TRANSPORT_ERR_UNKNOWN_VERSION
  | QUICHE_H3_TRANSPORT_ERR_INVALID_FRAME
  | QUICHE_H3_TRANSPORT_ERR_INVALID_PACKET
  | QUICHE_H3_TRANSPORT_ERR_INVALID_STATE
  | QUICHE_H3_TRANSPORT_ERR_INVALID_STREAM_STATE
  | QUICHE_H3_TRANSPORT_ERR_INVALID_TRANSPORT_PARAM
  | QUICHE_H3_TRANSPORT_ERR_CRYPTO_FAIL
  | QUICHE_H3_TRANSPORT_ERR_TLS_FAIL
  | QUICHE_H3_TRANSPORT_ERR_FLOW_CONTROL
  | QUICHE_H3_TRANSPORT_ERR_STREAM_LIMIT
  | QUICHE_H3_TRANSPORT_ERR_STREAM_STOPPED
  | QUICHE_H3_TRANSPORT_ERR_STREAM_RESET
  | QUICHE_H3_TRANSPORT_ERR_FINAL_SIZE
  | QUICHE_H3_TRANSPORT_ERR_CONGESTION_CONTROL
  | QUICHE_H3_TRANSPORT_ERR_ID_LIMIT
  | QUICHE_H3_TRANSPORT_ERR_OUT_OF_IDENTIFIERS
  | QUICHE_H3_TRANSPORT_ERR_KEY_UPDATE

primrec h3_err_name :: "h3_err \<Rightarrow> string" where
  "h3_err_name QUICHE_H3_ERR_DONE = ''QUICHE_H3_ERR_DONE''"
| "h3_err_name QUICHE_H3_ERR_BUFFER_TOO_SHORT = ''QUICHE_H3_ERR_BUFFER_TOO_SHORT''"
| "h3_err_name QUICHE_H3_ERR_INTERNAL_ERROR = ''QUICHE_H3_ERR_INTERNAL_ERROR''"
| "h3_err_name QUICHE_H3_ERR_EXCESSIVE_LOAD = ''QUICHE_H3_ERR_EXCESSIVE_LOAD''"
| "h3_err_name QUICHE_H3_ERR_ID_ERROR = ''QUICHE_H3_ERR_ID_ERROR''"
| "h3_err_name QUICHE_H3_ERR_STREAM_CREATION_ERROR = ''QUICHE_H3_ERR_STREAM_CREATION_ERROR''"
| "h3_err_name QUICHE_H3_ERR_CLOSED_CRITICAL_STREAM = ''QUICHE_H3_ERR_CLOSED_CRITICAL_STREAM''"
| "h3_err_name QUICHE_H3_ERR_MISSING_SETTINGS = ''QUICHE_H3_ERR_MISSING_SETTINGS''"
| "h3_err_name QUICHE_H3_ERR_FRAME_UNEXPECTED = ''QUICHE_H3_ERR_FRAME_UNEXPECTED''"
| "h3_err_name QUICHE_H3_ERR_FRAME_ERROR = ''QUICHE_H3_ERR_FRAME_ERROR''"
| "h3_err_name QUICHE_H3_ERR_QPACK_DECOMPRESSION_FAILED = ''QUICHE_H3_ERR_QPACK_DECOMPRESSION_FAILED''"
| "h3_err_name QUICHE_H3_ERR_STREAM_BLOCKED = ''QUICHE_H3_ERR_STREAM_BLOCKED''"
| "h3_err_name QUICHE_H3_ERR_SETTINGS_ERROR = ''QUICHE_H3_ERR_SETTINGS_ERROR''"
| "h3_err_name QUICHE_H3_ERR_REQUEST_REJECTED = ''QUICHE_H3_ERR_REQUEST_REJECTED''"
| "h3_err_name QUICHE_H3_ERR_REQUEST_CANCELLED = ''QUICHE_H3_ERR_REQUEST_CANCELLED''"
| "h3_err_name QUICHE_H3_ERR_REQUEST_INCOMPLETE = ''QUICHE_H3_ERR_REQUEST_INCOMPLETE''"
| "h3_err_name QUICHE_H3_ERR_MESSAGE_ERROR = ''QUICHE_H3_ERR_MESSAGE_ERROR''"
| "h3_err_name QUICHE_H3_ERR_CONNECT_ERROR = ''QUICHE_H3_ERR_CONNECT_ERROR''"
| "h3_err_name QUICHE_H3_ERR_VERSION_FALLBACK = ''QUICHE_H3_ERR_VERSION_FALLBACK''"
| "h3_err_name QUICHE_H3_TRANSPORT_ERR_DONE = ''QUICHE_H3_TRANSPORT_ERR_DONE''"
| "h3_err_name QUICHE_H3_TRANSPORT_ERR_BUFFER_TOO_SHORT = ''QUICHE_H3_TRANSPORT_ERR_BUFFER_TOO_SHORT''"
| "h3_err_name QUICHE_H3_TRANSPORT_ERR_UNKNOWN_VERSION = ''QUICHE_H3_TRANSPORT_ERR_UNKNOWN_VERSION''"
| "h3_err_name QUICHE_H3_TRANSPORT_ERR_INVALID_FRAME = ''QUICHE_H3_TRANSPORT_ERR_INVALID_FRAME''"
| "h3_err_name QUICHE_H3_TRANSPORT_ERR_INVALID_PACKET = ''QUICHE_H3_TRANSPORT_ERR_INVALID_PACKET''"
| "h3_err_name QUICHE_H3_TRANSPORT_ERR_INVALID_STATE = ''QUICHE_H3_TRANSPORT_ERR_INVALID_STATE''"
| "h3_err_name QUICHE_H3_TRANSPORT_ERR_INVALID_STREAM_STATE = ''QUICHE_H3_TRANSPORT_ERR_INVALID_STREAM_STATE''"
| "h3_err_name QUICHE_H3_TRANSPORT_ERR_INVALID_TRANSPORT_PARAM = ''QUICHE_H3_TRANSPORT_ERR_INVALID_TRANSPORT_PARAM''"
| "h3_err_name QUICHE_H3_TRANSPORT_ERR_CRYPTO_FAIL = ''QUICHE_H3_TRANSPORT_ERR_CRYPTO_FAIL''"
| "h3_err_name QUICHE_H3_TRANSPORT_ERR_TLS_FAIL = ''QUICHE_H3_TRANSPORT_ERR_TLS_FAIL''"
| "h3_err_name QUICHE_H3_TRANSPORT_ERR_FLOW_CONTROL = ''QUICHE_H3_TRANSPORT_ERR_FLOW_CONTROL''"
| "h3_err_name QUICHE_H3_TRANSPORT_ERR_STREAM_LIMIT = ''QUICHE_H3_TRANSPORT_ERR_STREAM_LIMIT''"
| "h3_err_name QUICHE_H3_TRANSPORT_ERR_STREAM_STOPPED = ''QUICHE_H3_TRANSPORT_ERR_STREAM_STOPPED''"
| "h3_err_name QUICHE_H3_TRANSPORT_ERR_STREAM_RESET = ''QUICHE_H3_TRANSPORT_ERR_STREAM_RESET''"
| "h3_err_name QUICHE_H3_TRANSPORT_ERR_FINAL_SIZE = ''QUICHE_H3_TRANSPORT_ERR_FINAL_SIZE''"
| "h3_err_name QUICHE_H3_TRANSPORT_ERR_CONGESTION_CONTROL = ''QUICHE_H3_TRANSPORT_ERR_CONGESTION_CONTROL''"
| "h3_err_name QUICHE_H3_TRANSPORT_ERR_ID_LIMIT = ''QUICHE_H3_TRANSPORT_ERR_ID_LIMIT''"
| "h3_err_name QUICHE_H3_TRANSPORT_ERR_OUT_OF_IDENTIFIERS = ''QUICHE_H3_TRANSPORT_ERR_OUT_OF_IDENTIFIERS''"
| "h3_err_name QUICHE_H3_TRANSPORT_ERR_KEY_UPDATE = ''QUICHE_H3_TRANSPORT_ERR_KEY_UPDATE''"

text \<open>The case labels in the order of the \<open>switch\<close>.\<close>

definition h3_cases :: "h3_err list" where
  "h3_cases =
    [QUICHE_H3_ERR_DONE, QUICHE_H3_ERR_BUFFER_TOO_SHORT,
     QUICHE_H3_ERR_INTERNAL_ERROR, QUICHE_H3_ERR_EXCESSIVE_LOAD,
     QUICHE_H3_ERR_ID_ERROR, QUICHE_H3_ERR_STREAM_CREATION_ERROR,
     QUICHE_H3_ERR_CLOSED_CRITICAL_STREAM, QUICHE_H3_ERR_MISSING_SETTINGS,
     QUICHE_H3_ERR_FRAME_UNEXPECTED, QUICHE_H3_ERR_FRAME_ERROR,
     QUICHE_H3_ERR_QPACK_DECOMPRESSION_FAILED, QUICHE_H3_ERR_STREAM_BLOCKED,
     QUICHE_H3_ERR_SETTINGS_ERROR, QUICHE_H3_ERR_REQUEST_REJECTED,
     QUICHE_H3_ERR_REQUEST_CANCELLED, QUICHE_H3_ERR_REQUEST_INCOMPLETE,
     QUICHE_H3_ERR_MESSAGE_ERROR, QUICHE_H3_ERR_CONNECT_ERROR,
     QUICHE_H3_ERR_VERSION_FALLBACK, QUICHE_H3_TRANSPORT_ERR_DONE,
     QUICHE_H3_TRANSPORT_ERR_BUFFER_TOO_SHORT, QUICHE_H3_TRANSPORT_ERR_UNKNOWN_VERSION,
     QUICHE_H3_TRANSPORT_ERR_INVALID_FRAME, QUICHE_H3_TRANSPORT_ERR_INVALID_PACKET,
     QUICHE_H3_TRANSPORT_ERR_INVALID_STATE, QUICHE_H3_TRANSPORT_ERR_INVALID_STREAM_STATE,
     QUICHE_H3_TRANSPORT_ERR_INVALID_TRANSPORT_PARAM, QUICHE_H3_TRANSPORT_ERR_CRYPTO_FAIL,
     QUICHE_H3_TRANSPORT_ERR_TLS_FAIL, QUICHE_H3_TRANSPORT_ERR_FLOW_CONTROL,
     QUICHE_H3_TRANSPORT_ERR_STREAM_LIMIT, QUICHE_H3_TRANSPORT_ERR_STREAM_STOPPED,
     QUICHE_H3_TRANSPORT_ERR_STREAM_RESET, QUICHE_H3_TRANSPORT_ERR_FINAL_SIZE,
     QUICHE_H3_TRANSPORT_ERR_CONGESTION_CONTROL, QUICHE_H3_TRANSPORT_ERR_ID_LIMIT,
     QUICHE_H3_TRANSPORT_ERR_OUT_OF_IDENTIFIERS, QUICHE_H3_TRANSPORT_ERR_KEY_UPDATE]"

definition quiche_h3_error_to_string :: "(h3_err \<Rightarrow> int) \<Rightarrow> int \<Rightarrow> string" where
  "quiche_h3_error_to_string code err =
     (case List.find (\<lambda>e. code e = err) h3_cases of
        Some e \<Rightarrow> h3_err_name e
      | None \<Rightarrow> ''UNKNOWN_ERROR'')"

section \<open>QUIC transport errors\<close>

datatype quiche_err =
    QUICHE_ERR_DONE
  | QUICHE_ERR_BUFFER_TOO_SHORT
  | QUICHE_ERR_UNKNOWN_VERSION
  | QUICHE_ERR_INVALID_FRAME
  | QUICHE_ERR_INVALID_PACKET
  | QUICHE_ERR_INVALID_STATE
  | QUICHE_ERR_INVALID_STREAM_STATE
  | QUICHE_ERR_INVALID_TRANSPORT_PARAM
  | QUICHE_ERR_CRYPTO_FAIL
  | QUICHE_ERR_TLS_FAIL
  | QUICHE_ERR_FLOW_CONTROL
  | QUICHE_ERR_STREAM_LIMIT
  | QUICHE_ERR_STREAM_STOPPED
  | QUICHE_ERR_STREAM_RESET
  | QUICHE_ERR_FINAL_SIZE
  | QUICHE_ERR_CONGESTION_CONTROL
  | QUICHE_ERR_ID_LIMIT
  | QUICHE_ERR_OUT_OF_IDENTIFIERS
  | QUICHE_ERR_KEY_UPDATE
  | QUICHE_ERR_CRYPTO_BUFFER_EXCEEDED

primrec quiche_err_name :: "quiche_err \<Rightarrow> string" where
  "quiche_err_name QUICHE_ERR_DONE = ''QUICHE_ERR_DONE''"
| "quiche_err_name QUICHE_ERR_BUFFER_TOO_SHORT = ''QUICHE_ERR_BUFFER_TOO_SHORT''"
| "quiche_err_name QUICHE_ERR_UNKNOWN_VERSION = ''QUICHE_ERR_UNKNOWN_VERSION''"
| "quiche_err_name QUICHE_ERR_INVALID_FRAME = ''QUICHE_ERR_INVALID_FRAME''"
| "quiche_err_name QUICHE_ERR_INVALID_PACKET = ''QUICHE_ERR_INVALID_PACKET''"
| "quiche_err_name QUICHE_ERR_INVALID_STATE = ''QUICHE_ERR_INVALID_STATE''"
| "quiche_err_name QUICHE_ERR_INVALID_STREAM_STATE = ''QUICHE_ERR_INVALID_STREAM_STATE''"
| "quiche_err_name QUICHE_ERR_INVALID_TRANSPORT_PARAM = ''QUICHE_ERR_INVALID_TRANSPORT_PARAM''"
| "quiche_err_name QUICHE_ERR_CRYPTO_FAIL = ''QUICHE_ERR_CRYPTO_FAIL''"
| "quiche_err_name QUICHE_ERR_TLS_FAIL = ''QUICHE_ERR_TLS_FAIL''"
| "quiche_err_name QUICHE_ERR_FLOW_CONTROL = ''QUICHE_ERR_FLOW_CONTROL''"
| "quiche_err_name QUICHE_ERR_STREAM_LIMIT = ''QUICHE_ERR_STREAM_LIMIT''"
| "quiche_err_name QUICHE_ERR_STREAM_STOPPED = ''QUICHE_ERR_STREAM_STOPPED''"
| "quiche_err_name QUICHE_ERR_STREAM_RESET = ''QUICHE_ERR_STREAM_RESET''"
| "quiche_err_name QUICHE_ERR_FINAL_SIZE = ''QUICHE_ERR_FINAL_SIZE''"
| "quiche_err_name QUICHE_ERR_CONGESTION_CONTROL = ''QUICHE_ERR_CONGESTION_CONTROL''"
| "quiche_err_name QUICHE_ERR_ID_LIMIT = ''QUICHE_ERR_ID_LIMIT''"
| "quiche_err_name QUICHE_ERR_OUT_OF_IDENTIFIERS = ''QUICHE_ERR_OUT_OF_IDENTIFIERS''"
| "quiche_err_name QUICHE_ERR_KEY_UPDATE = ''QUICHE_ERR_KEY_UPDATE''"
| "quiche_err_name QUICHE_ERR_CRYPTO_BUFFER_EXCEEDED = ''QUICHE_ERR_CRYPTO_BUFFER_EXCEEDED''"

definition quiche_cases :: "quiche_err list" where
  "quiche_cases =
    [QUICHE_ERR_DONE, QUICHE_ERR_BUFFER_TOO_SHORT,
     QUICHE_ERR_UNKNOWN_VERSION, QUICHE_ERR_INVALID_FRAME,
     QUICHE_ERR_INVALID_PACKET, QUICHE_ERR_INVALID_STATE,
     QUICHE_ERR_INVALID_STREAM_STATE, QUICHE_ERR_INVALID_TRANSPORT_PARAM,
     QUICHE_ERR_CRYPTO_FAIL, QUICHE_ERR_TLS_FAIL,
     QUICHE_ERR_FLOW_CONTROL, QUICHE_ERR_STREAM_LIMIT,
     QUICHE_ERR_STREAM_STOPPED, QUICHE_ERR_STREAM_RESET,
     QUICHE_ERR_FINAL_SIZE, QUICHE_ERR_CONGESTION_CONTROL,
     QUICHE_ERR_ID_LIMIT, QUICHE_ERR_OUT_OF_IDENTIFIERS,
     QUICHE_ERR_KEY_UPDATE, QUICHE_ERR_CRYPTO_BUFFER_EXCEEDED]"

definition quiche_error_to_string :: "(quiche_err \<Rightarrow> int) \<Rightarrow> int \<Rightarrow> string" where
  "quiche_error_to_string code err =
     (case List.find (\<lambda>e. code e = err) quiche_cases of
        Some e \<Rightarrow> quiche_err_name e
      | None \<Rightarrow> ''UNKNOWN_ERROR'')"

section \<open>Both switches cover their enumeration\<close>

lemma set_h3_cases: "e \<in> set h3_cases"
  by (cases e) (simp_all add: h3_cases_def)

lemma set_quiche_cases: "e \<in> set quiche_cases"
  by (cases e) (simp_all add: quiche_cases_def)

lemma distinct_h3_names: "distinct (''UNKNOWN_ERROR'' # map h3_err_name h3_cases)"
  by (simp add: h3_cases_def)

lemma distinct_quiche_names: "distinct (''UNKNOWN_ERROR'' # map quiche_err_name quiche_cases)"
  by (simp add: quiche_cases_def)

lemma find_code:
  assumes "inj code" and "e \<in> set es"
  shows "List.find (\<lambda>x. code x = code e) es = Some e"
  using assms by (induction es) (auto simp: inj_eq)

lemma find_no_code: "err \<notin> range code \<Longrightarrow> List.find (\<lambda>x. code x = err) es = None"
  by (auto simp: find_None_iff)

lemma name_determines:
  assumes "distinct (u # map nm es)" and "a \<in> set es" and "b \<in> set es"
  shows "nm a = nm b \<longleftrightarrow> a = b" and "nm a \<noteq> u"
  using assms by (auto simp: distinct_map inj_on_def image_iff)

section \<open>Names\<close>

text \<open>
  For any assignment of distinct values to the HTTP/3 error macros, two return codes
  of the enumeration print the same exactly when they are equal, each prints the name of
  its own macro, and every other code prints as UNKNOWN_ERROR.
\<close>

lemma h3_error_names:
  assumes "inj code"
  shows "quiche_h3_error_to_string code (code a) = h3_err_name a \<and>
     (quiche_h3_error_to_string code (code a) = quiche_h3_error_to_string code (code b) \<longleftrightarrow> a = b) \<and>
     (quiche_h3_error_to_string code err = ''UNKNOWN_ERROR'' \<longleftrightarrow> err \<notin> range code)"
proof -
  have eq: "quiche_h3_error_to_string code (code e) = h3_err_name e" for e
    using find_code [OF assms set_h3_cases] by (simp add: quiche_h3_error_to_string_def)
  moreover have "quiche_h3_error_to_string code err = ''UNKNOWN_ERROR''" if "err \<notin> range code"
    using find_no_code [OF that] by (simp add: quiche_h3_error_to_string_def)
  moreover have "quiche_h3_error_to_string code err \<noteq> ''UNKNOWN_ERROR''" if "err \<in> range code"
    using that eq name_determines(2) [OF distinct_h3_names set_h3_cases set_h3_cases] by auto
  moreover have "h3_err_name a = h3_err_name b \<longleftrightarrow> a = b"
    by (rule name_determines(1) [OF distinct_h3_names set_h3_cases set_h3_cases])
  ultimately show ?thesis by metis
qed

end
