(* ===== verification/QS_Mailbox.thy ===== *)
theory QS_Mailbox
  imports QS_Prelude
begin

text \<open>
  \<open>QuicheMailbox\<close>: the queue through which the io thread hands events to the thread that
  polls. \<open>Post\<close>, \<open>Shutdown\<close> and the critical section of \<open>Poll\<close> are functions on the
  mailbox; the interleaving of a poller with posters is the step relation \<open>mb_step\<close>,
  which has the condition variable's states (about to sleep, asleep, woken). The locale
  \<open>batch_queue\<close> is the contract of a queue that is emptied in one swap; the mailbox and
  the logger's queue both provide it.
\<close>

section \<open>Queues emptied by a swap\<close>

datatype 'e qop = Push 'e | Drain

fun bq_run :: "('e \<Rightarrow> 'q \<Rightarrow> 'q) \<Rightarrow> ('q \<Rightarrow> 'e list \<times> 'q) \<Rightarrow> 'e qop list \<Rightarrow> 'q \<Rightarrow> 'e list \<times> 'q" where
  "bq_run push drain [] q = ([], q)"
| "bq_run push drain (Push e # ops) q = bq_run push drain ops (push e q)"
| "bq_run push drain (Drain # ops) q =
     (case drain q of (out, q') \<Rightarrow> case bq_run push drain ops q' of (outs, q'') \<Rightarrow> (out @ outs, q''))"

fun pushes :: "'e qop list \<Rightarrow> 'e list" where
  "pushes [] = []"
| "pushes (Push e # ops) = e # pushes ops"
| "pushes (Drain # ops) = pushes ops"

locale batch_queue =
  fixes push :: "'e \<Rightarrow> 'q \<Rightarrow> 'q"
    and drain :: "'q \<Rightarrow> 'e list \<times> 'q"
    and contents :: "'q \<Rightarrow> 'e list"
    and live :: "'q \<Rightarrow> bool"
  assumes contents_push: "contents (push e q) = contents q @ [e]"
    and live_push: "live (push e q) = live q"
    and drain_out: "live q \<Longrightarrow> fst (drain q) = contents q"
    and drain_rest: "live q \<Longrightarrow> contents (snd (drain q)) = []"
    and live_drain: "live q \<Longrightarrow> live (snd (drain q))"
begin

text \<open>Whatever the order of pushes and drains: in order, nothing lost, nothing twice.\<close>

lemma exactly_once_in_order:
  assumes "live q" and "bq_run push drain ops q = (outs, q')"
  shows "outs @ contents q' = contents q @ pushes ops" and "live q'"
proof -
  have "outs @ contents q' = contents q @ pushes ops \<and> live q'"
    using assms
  proof (induction ops arbitrary: q outs q')
    case (Cons op ops)
    show ?case
    proof (cases op)
      case (Push e)
      with Cons.prems Cons.IH [of "push e q" outs q'] show ?thesis
        by (simp add: contents_push live_push)
    next
      case Drain
      obtain outs1 q2 where r: "bq_run push drain ops (snd (drain q)) = (outs1, q2)"
        by (cases "bq_run push drain ops (snd (drain q))")
      with Cons.prems(2) Drain have "outs = fst (drain q) @ outs1" "q' = q2"
        by (simp_all add: case_prod_unfold)
      with Cons.IH [OF live_drain r] Cons.prems(1) Drain show ?thesis
        by (simp add: drain_out drain_rest)
    qed
  qed simp
  then show "outs @ contents q' = contents q @ pushes ops" and "live q'" by simp_all
qed

lemma drain_all: "live q \<Longrightarrow> fst (drain (fold push es q)) = contents q @ es"
proof -
  have "contents (fold push es q) = contents q @ es \<and> live (fold push es q) = live q"
    by (induction es arbitrary: q) (simp_all add: contents_push live_push)
  then show "live q \<Longrightarrow> ?thesis" by (simp add: drain_out)
qed

end

section \<open>The mailbox\<close>

record 'e mailbox =
  terminated :: bool
  events :: "'e list"

definition new_mailbox :: "'e mailbox" where
  "new_mailbox = \<lparr>terminated = False, events = []\<rparr>"

definition Post :: "'e \<Rightarrow> 'e mailbox \<Rightarrow> 'e mailbox" where
  "Post e mb = mb\<lparr>events := events mb @ [e]\<rparr>"

definition Shutdown :: "'e mailbox \<Rightarrow> 'e mailbox" where
  "Shutdown mb = mb\<lparr>terminated := True\<rparr>"

text \<open>The predicate of both waits, and what \<open>Poll\<close> does with the lock once a wait is over.\<close>

definition mb_ready :: "'e mailbox \<Rightarrow> bool" where
  "mb_ready mb \<longleftrightarrow> terminated mb \<or> events mb \<noteq> []"

definition Poll_swap :: "'e mailbox \<Rightarrow> 'e list \<times> 'e mailbox" where
  "Poll_swap mb =
     (if terminated mb \<or> events mb = [] then ([], mb) else (events mb, mb\<lparr>events := []\<rparr>))"

text \<open>
  \<open>Poll\<close> by one thread while no other thread acts. \<open>None\<close>: it blocks (a negative timeout
  and nothing to wait for). The callback acts on a state of its own.
\<close>

definition Poll :: "('e \<Rightarrow> 's \<Rightarrow> 's) \<Rightarrow> int \<Rightarrow> 'e mailbox \<Rightarrow> 's \<Rightarrow> ('e mailbox \<times> 's) option" where
  "Poll callback timeout_msec mb s =
     (if timeout_msec < 0 \<and> \<not> mb_ready mb then None
      else case Poll_swap mb of (evs, mb') \<Rightarrow> Some (mb', fold callback evs s))"

interpretation mbq: batch_queue Post Poll_swap events "\<lambda>mb. \<not> terminated mb"
  by unfold_locales (auto simp: Post_def Poll_swap_def)

section \<open>A poller and its posters\<close>

text \<open>
  The polling thread: outside \<open>Poll\<close>; holding the lock after the predicate was false,
  about to wait; asleep on the condition variable; woken (by a notification, the timeout or
  spuriously) and about to take the lock; delivering the events it took. While it is
  \<open>Deciding\<close> it holds the mutex, so no \<open>Post\<close> or \<open>Shutdown\<close> can happen.
\<close>

datatype 'e poller = Outside | Deciding | Asleep | Woken | Delivering "'e list"

record 'e mb_sys =
  mbox :: "'e mailbox"
  poller :: "'e poller"
  forever :: bool           \<comment> \<open>the current \<open>Poll\<close> has a negative timeout\<close>
  posted :: "'e list"       \<comment> \<open>ghost: everything posted, in order\<close>
  delivered :: "'e list"    \<comment> \<open>ghost: everything the callback got, in order\<close>

definition mb_init :: "'e mb_sys" where
  "mb_init = \<lparr>mbox = new_mailbox, poller = Outside, forever = False, posted = [], delivered = []\<rparr>"

definition notify :: "'e poller \<Rightarrow> 'e poller" where
  "notify p = (if p = Asleep then Woken else p)"

inductive mb_step :: "'e mb_sys \<Rightarrow> 'e mb_sys \<Rightarrow> bool" where
  mb_post: "poller s \<noteq> Deciding \<Longrightarrow>
     mb_step s (s\<lparr>mbox := Post e (mbox s), poller := notify (poller s), posted := posted s @ [e]\<rparr>)"
| mb_shutdown: "poller s \<noteq> Deciding \<Longrightarrow>
     mb_step s (s\<lparr>mbox := Shutdown (mbox s), poller := notify (poller s)\<rparr>)"
| mb_call: "poller s = Outside \<Longrightarrow> \<not> mb_ready (mbox s) \<Longrightarrow>
     mb_step s (s\<lparr>poller := Deciding, forever := f\<rparr>)"
| mb_wait_again: "poller s = Woken \<Longrightarrow> \<not> mb_ready (mbox s) \<Longrightarrow>
     mb_step s (s\<lparr>poller := Deciding\<rparr>)"
| mb_sleep: "poller s = Deciding \<Longrightarrow> mb_step s (s\<lparr>poller := Asleep\<rparr>)"
| mb_wake: "poller s = Asleep \<Longrightarrow> mb_step s (s\<lparr>poller := Woken\<rparr>)"
| mb_take: "poller s \<in> {Outside, Woken} \<Longrightarrow> mb_ready (mbox s) \<Longrightarrow>
     Poll_swap (mbox s) = (evs, mb') \<Longrightarrow>
     mb_step s (s\<lparr>mbox := mb', poller := Delivering evs\<rparr>)"
| mb_timeout: "poller s = Woken \<Longrightarrow> \<not> mb_ready (mbox s) \<Longrightarrow> \<not> forever s \<Longrightarrow>
     mb_step s (s\<lparr>poller := Delivering []\<rparr>)"
| mb_deliver: "poller s = Delivering (e # evs) \<Longrightarrow>
     mb_step s (s\<lparr>poller := Delivering evs, delivered := delivered s @ [e]\<rparr>)"
| mb_return: "poller s = Delivering [] \<Longrightarrow> mb_step s (s\<lparr>poller := Outside\<rparr>)"

fun in_hand :: "'e poller \<Rightarrow> 'e list" where
  "in_hand (Delivering evs) = evs"
| "in_hand _ = []"

lemma in_hand_notify [simp]: "in_hand (notify p) = in_hand p"
  by (simp add: notify_def)

text \<open>
  The invariant: what was posted is what was delivered, is in the poller's hands or waits
  in the mailbox, in this order; and the poller is never asleep (or about to be) while the
  mailbox has something for it.
\<close>

definition mb_inv :: "'e mb_sys \<Rightarrow> bool" where
  "mb_inv s \<longleftrightarrow>
     posted s = delivered s @ in_hand (poller s) @ events (mbox s) \<and>
     (poller s \<in> {Deciding, Asleep} \<longrightarrow> \<not> mb_ready (mbox s))"

lemma mb_inv_init: "mb_inv mb_init"
  by (simp add: mb_inv_def mb_init_def new_mailbox_def)

lemma mb_step_inv: "mb_step s t \<Longrightarrow> mb_inv s \<Longrightarrow> mb_inv t"
proof (induction rule: mb_step.induct)
  case (mb_take s evs mb')
  then show ?case by (auto simp: mb_inv_def Poll_swap_def split: if_splits)
qed (auto simp: mb_inv_def Post_def Shutdown_def mb_ready_def notify_def split: if_splits)

inductive mb_reachable :: "'e mb_sys \<Rightarrow> bool" where
  mb_start: "mb_reachable mb_init"
| mb_next: "mb_reachable s \<Longrightarrow> mb_step s t \<Longrightarrow> mb_reachable t"

lemma mb_reachable_inv: "mb_reachable s \<Longrightarrow> mb_inv s"
  by (induction rule: mb_reachable.induct) (auto intro: mb_inv_init mb_step_inv)

section \<open>Properties\<close>

text \<open>
  C18: Under every interleaving of posts, a shutdown and the poller's own steps, the
  callback receives the posted events in the order they were posted, none lost and none
  twice: what was delivered is a prefix of what was posted, and the rest is still held.
\<close>

theorem mailbox_fifo:
  assumes "mb_reachable s"
  shows "posted s = delivered s @ in_hand (poller s) @ events (mbox s)"
  using mb_reachable_inv [OF assms] by (simp add: mb_inv_def)

lemma ex_mb_run:
  "mb_reachable (mb_init\<lparr>mbox := Post (1::nat) new_mailbox, posted := [1]\<rparr>)"
  using mb_next [OF mb_start mb_post [of mb_init "1 :: nat"]]
  by (simp add: mb_init_def notify_def)

text \<open>Two events are posted and taken, the first is delivered, a third is posted.\<close>

lemma ex_mb_delivery:
  "mb_reachable \<lparr>mbox = \<lparr>terminated = False, events = [c]\<rparr>, poller = Delivering [b], forever = False,
     posted = [a, b, c], delivered = [a]\<rparr>"
proof -
  let ?s = "\<lambda>es p ps ds. \<lparr>mbox = \<lparr>terminated = False, events = es\<rparr>, poller = p, forever = False, posted = ps, delivered = ds\<rparr>"
  have "mb_reachable (?s [a] Outside [a] [])"
    using mb_next [OF mb_start mb_post [of mb_init a]] by (simp add: mb_init_def notify_def new_mailbox_def Post_def)
  then have "mb_reachable (?s [a, b] Outside [a, b] [])"
    using mb_next [OF _ mb_post [of "?s [a] Outside [a] []" b]] by (simp add: notify_def Post_def)
  then have "mb_reachable (?s [] (Delivering [a, b]) [a, b] [])"
    using mb_next [OF _ mb_take [of "?s [a, b] Outside [a, b] []" "[a, b]" "\<lparr>terminated = False, events = []\<rparr>"]]
    by (simp add: mb_ready_def Poll_swap_def)
  then have "mb_reachable (?s [] (Delivering [b]) [a, b] [a])"
    using mb_next [OF _ mb_deliver [of "?s [] (Delivering [a, b]) [a, b] []" a "[b]"]] by simp
  then show ?thesis
    using mb_next [OF _ mb_post [of "?s [] (Delivering [b]) [a, b] [a]" c]] by (simp add: notify_def Post_def)
qed

theorem mailbox_fifo_witness:
  "mb_reachable \<lparr>mbox = \<lparr>terminated = False, events = [3 :: nat]\<rparr>, poller = Delivering [2], forever = False,
     posted = [1, 2, 3], delivered = [1]\<rparr> \<and> [1, 2, 3 :: nat] = [1] @ [2] @ [3]"
  using ex_mb_delivery [of 3 2 "1 :: nat"] mailbox_fifo [OF ex_mb_delivery [of 3 2 "1 :: nat"]] by simp

text \<open>
  C24: No wake-up is lost: a poller asleep in \<open>Poll\<close> has nothing to wake up for, and once
  an event is posted or the mailbox shut down it is not asleep, for every interleaving.
\<close>

theorem mailbox_no_lost_wakeup:
  assumes "mb_reachable s" and "mb_ready (mbox s)"
  shows "poller s \<noteq> Asleep \<and> poller s \<noteq> Deciding"
  using mb_reachable_inv [OF assms(1)] assms(2) by (auto simp: mb_inv_def)

theorem mailbox_no_lost_wakeup_witness:
  "mb_ready (Post (1::nat) new_mailbox) \<and>
   poller (mb_init\<lparr>mbox := Post (1::nat) new_mailbox, posted := [1]\<rparr>) \<noteq> Asleep"
proof -
  have "mb_ready (Post (1::nat) new_mailbox)" by (simp add: mb_ready_def Post_def)
  with mailbox_no_lost_wakeup [OF ex_mb_run] show ?thesis by simp
qed

end
