(* ===== verification/QS_Logger.thy ===== *)
theory QS_Logger
  imports QS_Mailbox
begin

text \<open>
  \<open>Logger\<close> (\<open>quicsend_tools.hpp\<close>/\<open>.cpp\<close>): a queue of entries filled by any thread and
  written out by the logger thread, and the destructor that writes what is left. The queue
  is a second provider of the \<open>batch_queue\<close> contract. Unlike the mailbox, \<open>Terminate\<close>
  sets its flag without the mutex; the step relation \<open>lg_step\<close> shows what that allows.
\<close>

section \<open>Levels\<close>

datatype log_level = DEBUG | INFO | WARN | ERROR

instantiation log_level :: linorder
begin

primrec level_num :: "log_level \<Rightarrow> nat" where
  "level_num DEBUG = 0"
| "level_num INFO = 1"
| "level_num WARN = 2"
| "level_num ERROR = 3"

definition less_eq_log_level :: "log_level \<Rightarrow> log_level \<Rightarrow> bool" where
  "less_eq_log_level a b \<longleftrightarrow> level_num a \<le> level_num b"

definition less_log_level :: "log_level \<Rightarrow> log_level \<Rightarrow> bool" where
  "less_log_level a b \<longleftrightarrow> level_num a < level_num b"

instance
proof
  fix a b :: log_level
  show "a \<le> b \<Longrightarrow> b \<le> a \<Longrightarrow> a = b"
    by (cases a; cases b) (simp_all add: less_eq_log_level_def)
qed (auto simp: less_eq_log_level_def less_log_level_def)

end

section \<open>The logger's data\<close>

datatype sink = ToCallback log_level | Stdout | Stderr

record logger =
  LogQueue :: "(log_level \<times> string) list"
  LogsToProcess :: "(log_level \<times> string) list"
  CurrentLogLevel :: log_level
  has_callback :: bool
  log_output :: "(sink \<times> string) list"     \<comment> \<open>what was written, in order\<close>

definition new_logger :: logger where
  "new_logger = \<lparr>LogQueue = [], LogsToProcess = [], CurrentLogLevel = INFO,
                 has_callback = False, log_output = []\<rparr>"

definition SetLogLevel :: "log_level \<Rightarrow> logger \<Rightarrow> logger" where
  "SetLogLevel lv l = l\<lparr>CurrentLogLevel := lv\<rparr>"

definition SetCallback :: "bool \<Rightarrow> logger \<Rightarrow> logger" where
  "SetCallback cb l = l\<lparr>has_callback := cb\<rparr>"

definition Log :: "log_level \<Rightarrow> string \<Rightarrow> logger \<Rightarrow> logger" where
  "Log lv msg l = l\<lparr>LogQueue := LogQueue l @ [(lv, msg)]\<rparr>"

text \<open>
  A \<open>LogStream\<close> made by \<open>Debug()\<close>..\<open>Error()\<close> is enabled when the current level is at most
  its own; its destructor logs the joined pieces when it is enabled.
\<close>

definition LogStream :: "log_level \<Rightarrow> string list \<Rightarrow> logger \<Rightarrow> logger" where
  "LogStream lv pieces l =
     (if CurrentLogLevel l \<le> lv then Log lv (concat pieces) l else l)"

fun prefix_of :: "log_level \<Rightarrow> string" where
  "prefix_of DEBUG = ''[DEBUG] ''"
| "prefix_of INFO = ''[INFO] ''"
| "prefix_of WARN = ''[WARN] ''"
| "prefix_of ERROR = ''[ERROR] ''"

definition write_entry :: "bool \<Rightarrow> log_level \<times> string \<Rightarrow> sink \<times> string" where
  "write_entry cb entry = (case entry of (lv, msg) \<Rightarrow>
     if cb then (ToCallback lv, msg)
     else (if lv \<le> INFO then Stdout else Stderr, prefix_of lv @ msg))"

definition ProcessLogQueue :: "logger \<Rightarrow> logger" where
  "ProcessLogQueue l =
     (if LogsToProcess l = [] then l
      else l\<lparr>log_output := log_output l @
               map (write_entry (has_callback l)) (filter (\<lambda>(lv, _). CurrentLogLevel l \<le> lv) (LogsToProcess l)),
             LogsToProcess := []\<rparr>)"

definition swap_queues :: "logger \<Rightarrow> logger" where
  "swap_queues l = l\<lparr>LogsToProcess := LogQueue l, LogQueue := LogsToProcess l\<rparr>"

text \<open>One round of \<open>RunLogger\<close> after its wait, and the work of the destructor after the join.\<close>

definition RunLogger_round :: "logger \<Rightarrow> logger" where
  "RunLogger_round l = ProcessLogQueue (swap_queues l)"

definition Logger_destroy :: "logger \<Rightarrow> logger" where
  "Logger_destroy l = ProcessLogQueue (swap_queues l)"

definition drain_log :: "logger \<Rightarrow> (log_level \<times> string) list \<times> logger" where
  "drain_log l = (LogQueue l, RunLogger_round l)"

definition Log_entry :: "log_level \<times> string \<Rightarrow> logger \<Rightarrow> logger" where
  "Log_entry e l = Log (fst e) (snd e) l"

interpretation logq: batch_queue Log_entry drain_log LogQueue "\<lambda>l. LogsToProcess l = []"
  by unfold_locales
     (auto simp: Log_entry_def Log_def drain_log_def RunLogger_round_def swap_queues_def ProcessLogQueue_def)

text \<open>What a run of logging and processing writes, for a fixed level and callback.\<close>

definition written :: "logger \<Rightarrow> (log_level \<times> string) list \<Rightarrow> (sink \<times> string) list" where
  "written l es =
     map (write_entry (has_callback l)) (filter (\<lambda>(lv, _). CurrentLogLevel l \<le> lv) es)"

lemma drain_log_effect:
  "LogsToProcess l = [] \<Longrightarrow>
   log_output (RunLogger_round l) = log_output l @ written l (LogQueue l) \<and>
   CurrentLogLevel (RunLogger_round l) = CurrentLogLevel l \<and>
   has_callback (RunLogger_round l) = has_callback l"
  by (auto simp: RunLogger_round_def swap_queues_def ProcessLogQueue_def written_def)

lemma log_run_output:
  "LogsToProcess l = [] \<Longrightarrow> bq_run Log_entry drain_log ops l = (outs, l') \<Longrightarrow>
   log_output l' = log_output l @ written l outs \<and> CurrentLogLevel l' = CurrentLogLevel l \<and>
   has_callback l' = has_callback l \<and> LogsToProcess l' = []"
proof (induction ops arbitrary: l outs)
  case (Cons op ops)
  show ?case
  proof (cases op)
    case (Push e)
    with Cons.prems Cons.IH [of "Log_entry e l" outs] show ?thesis
      by (simp add: Log_entry_def Log_def written_def)
  next
    case Drain
    obtain outs1 l2 where r: "bq_run Log_entry drain_log ops (RunLogger_round l) = (outs1, l2)"
      by (cases "bq_run Log_entry drain_log ops (RunLogger_round l)")
    with Cons.prems Drain have "outs = LogQueue l @ outs1" "l' = l2"
      by (simp_all add: drain_log_def [of l])
    moreover have "LogsToProcess (RunLogger_round l) = []"
      using logq.live_drain [of l] Cons.prems(1) by (simp add: drain_log_def)
    ultimately show ?thesis
      using Cons.IH [of "RunLogger_round l" outs1] r drain_log_effect [OF Cons.prems(1)]
      by (simp add: written_def)
  qed
qed (simp add: written_def)

section \<open>The logger thread and termination\<close>

text \<open>
  The thread: at the top of its loop, about to take the lock, holding the lock after the
  predicate was false, asleep, processing, gone. \<open>Log\<close> needs the mutex, so it cannot fall
  between the predicate and the sleep; \<open>Terminate\<close> takes no lock, so it can.
\<close>

datatype lg_pc = Top | Check | LgDeciding | LgAsleep | Processing | Exited

record lg_sys =
  lg_queue :: nat          \<comment> \<open>number of entries in \<open>LogQueue\<close>\<close>
  Terminated :: bool
  lg_pc :: lg_pc

definition lg_init :: lg_sys where
  "lg_init = \<lparr>lg_queue = 0, Terminated = False, lg_pc = Top\<rparr>"

definition lg_notify :: "lg_pc \<Rightarrow> lg_pc" where
  "lg_notify p = (if p = LgAsleep then Check else p)"

inductive lg_step :: "lg_sys \<Rightarrow> lg_sys \<Rightarrow> bool" where
  lg_log: "lg_pc s \<noteq> LgDeciding \<Longrightarrow>
     lg_step s (s\<lparr>lg_queue := Suc (lg_queue s), lg_pc := lg_notify (lg_pc s)\<rparr>)"
| lg_terminate: "lg_step s (s\<lparr>Terminated := True, lg_pc := lg_notify (lg_pc s)\<rparr>)"
| lg_top: "lg_pc s = Top \<Longrightarrow>
     lg_step s (s\<lparr>lg_pc := (if Terminated s then Exited else Check)\<rparr>)"
| lg_wait: "lg_pc s = Check \<Longrightarrow> lg_queue s = 0 \<Longrightarrow> \<not> Terminated s \<Longrightarrow>
     lg_step s (s\<lparr>lg_pc := LgDeciding\<rparr>)"
| lg_sleep: "lg_pc s = LgDeciding \<Longrightarrow> lg_step s (s\<lparr>lg_pc := LgAsleep\<rparr>)"
| lg_swap: "lg_pc s = Check \<Longrightarrow> lg_queue s \<noteq> 0 \<or> Terminated s \<Longrightarrow>
     lg_step s (s\<lparr>lg_queue := 0, lg_pc := Processing\<rparr>)"
| lg_done: "lg_pc s = Processing \<Longrightarrow>
     lg_step s (s\<lparr>lg_pc := (if Terminated s then Exited else Top)\<rparr>)"

inductive_simps lg_step_simps: "lg_step s t"

inductive lg_reachable :: "lg_sys \<Rightarrow> bool" where
  lg_start: "lg_reachable lg_init"
| lg_next: "lg_reachable s \<Longrightarrow> lg_step s t \<Longrightarrow> lg_reachable t"

section \<open>Properties\<close>

text \<open>
  C25: Every message logged before the destructor is written exactly once, in order, if its
  level passes the threshold: for any sequence of \<open>Log\<close> calls and rounds of the logger
  thread, the output after the destructor is the rendering of the messages logged.
\<close>

theorem logger_writes_all:
  assumes "LogsToProcess l = []" and "LogQueue l = []"
    and "bq_run Log_entry drain_log ops l = (outs, l')"
  shows "log_output (Logger_destroy l') = log_output l @ written l (pushes ops)"
proof -
  from log_run_output [OF assms(1,3)] have *: "log_output l' = log_output l @ written l outs"
    "written l' = written l" "LogsToProcess l' = []"
    by (auto simp: written_def)
  have "outs @ LogQueue l' = pushes ops"
    using logq.exactly_once_in_order(1) [OF assms(1,3)] assms(2) by simp
  moreover have "log_output (Logger_destroy l') = log_output l @ written l (outs @ LogQueue l')"
    using * drain_log_effect [OF *(3)]
    by (simp add: Logger_destroy_def RunLogger_round_def) (simp add: written_def)
  ultimately show ?thesis by simp
qed

theorem logger_writes_all_witness:
  "log_output (Logger_destroy (snd (bq_run Log_entry drain_log
      [Push (WARN, ''a''), Drain, Push (DEBUG, ''b''), Push (INFO, ''c'')] new_logger))) =
   [(Stderr, ''[WARN] a''), (Stdout, ''[INFO] c'')]"
proof -
  let ?ops = "[Push (WARN, ''a''), Drain, Push (DEBUG, ''b''), Push (INFO, ''c'')]"
  let ?r = "bq_run Log_entry drain_log ?ops new_logger"
  have "log_output (Logger_destroy (snd ?r)) = log_output new_logger @ written new_logger (pushes ?ops)"
  proof (rule logger_writes_all)
    show "?r = (fst ?r, snd ?r)" by (rule prod.collapse [symmetric])
  qed (simp_all add: new_logger_def)
  then show ?thesis
    by (simp add: new_logger_def written_def write_entry_def less_eq_log_level_def)
qed



end
