(* ===== verification/QS_Codec.thy ===== *)
theory QS_Codec
  imports QS_Prelude
begin

unbundle bit_operations_syntax

text \<open>
  The little-endian helpers at the end of \<open>quicsend_tools.hpp\<close>, acting on a byte buffer
  at an offset (the C++ pointer), and \<open>memcpy\<close> into a buffer. The locale \<open>le_codec\<close>
  states what the token code relies on (a value written at an offset is read back, and
  the rest of the buffer is untouched); both widths are interpretations of it.
\<close>

section \<open>Buffers\<close>

text \<open>\<open>memcpy(dst + off, src, n)\<close>\<close>

definition memcpy :: "bytes \<Rightarrow> nat \<Rightarrow> bytes \<Rightarrow> nat \<Rightarrow> bytes" where
  "memcpy dst off src n = take off dst @ take n src @ drop (off + n) dst"

definition write_uint16_le :: "bytes \<Rightarrow> nat \<Rightarrow> u16 \<Rightarrow> bytes" where
  "write_uint16_le ptr off v = ptr[off := ucast v, Suc off := ucast (drop_bit 8 v)]"

definition read_uint16_le :: "bytes \<Rightarrow> nat \<Rightarrow> u16" where
  "read_uint16_le ptr off = ucast (ptr ! off) OR push_bit 8 (ucast (ptr ! Suc off))"

definition write_uint32_le :: "bytes \<Rightarrow> nat \<Rightarrow> u32 \<Rightarrow> bytes" where
  "write_uint32_le ptr off v =
     ptr[off := ucast v, off + 1 := ucast (drop_bit 8 v),
         off + 2 := ucast (drop_bit 16 v), off + 3 := ucast (drop_bit 24 v)]"

definition read_uint32_le :: "bytes \<Rightarrow> nat \<Rightarrow> u32" where
  "read_uint32_le ptr off =
     ucast (ptr ! off) OR push_bit 8 (ucast (ptr ! (off + 1))) OR
     push_bit 16 (ucast (ptr ! (off + 2))) OR push_bit 24 (ucast (ptr ! (off + 3)))"

section \<open>The contract of a fixed-width field\<close>

locale le_codec =
  fixes width :: nat
    and wr :: "bytes \<Rightarrow> nat \<Rightarrow> 'v \<Rightarrow> bytes"
    and rd :: "bytes \<Rightarrow> nat \<Rightarrow> 'v"
  assumes length_wr: "length (wr buf off v) = length buf"
    and rd_wr: "off + width \<le> length buf \<Longrightarrow> rd (wr buf off v) off = v"
    and wr_outside: "i < off \<or> off + width \<le> i \<Longrightarrow> wr buf off v ! i = buf ! i"
    and rd_local: "(\<And>i. off \<le> i \<Longrightarrow> i < off + width \<Longrightarrow> buf ! i = buf' ! i) \<Longrightarrow> rd buf off = rd buf' off"
    and rd_inj: "off + width \<le> length buf \<Longrightarrow> off' + width \<le> length buf' \<Longrightarrow> rd buf off = rd buf' off' \<Longrightarrow>
      i < width \<Longrightarrow> buf ! (off + i) = buf' ! (off' + i)"
begin

lemma take_wr: "take off (wr buf off v) = take off buf"
  by (rule nth_equalityI) (simp_all add: length_wr wr_outside)

lemma drop_wr: "off + width \<le> n \<Longrightarrow> drop n (wr buf off v) = drop n buf"
  by (rule nth_equalityI) (simp_all add: length_wr wr_outside)

text \<open>A field keeps its value when a later write falls outside it.\<close>

lemma rd_after_disjoint:
  "length buf' = length buf \<Longrightarrow>
   (\<And>i. off \<le> i \<Longrightarrow> i < off + width \<Longrightarrow> buf' ! i = buf ! i) \<Longrightarrow> rd buf' off = rd buf off"
  by (rule rd_local) simp

end

lemma bytes_of_u16:
  "ucast (ucast v :: u8) OR push_bit 8 (ucast (ucast (drop_bit 8 v) :: u8) :: u16) = v"
  by (rule bit_word_eqI) (auto simp: bit_simps)

lemma bytes_of_u32:
  fixes v :: u32
  shows "(ucast (ucast v :: u8) :: u32) OR push_bit 8 (ucast (ucast (drop_bit 8 v) :: u8)) OR
   push_bit 16 (ucast (ucast (drop_bit 16 v) :: u8)) OR
   push_bit 24 (ucast (ucast (drop_bit 24 v) :: u8)) = v" (is "?w = v")
proof (rule bit_word_eqI)
  fix n assume "n < LENGTH(32)"
  then consider "n < 8" | "8 \<le> n" "n < 16" | "16 \<le> n" "n < 24" | "24 \<le> n" "n < 32"
    by fastforce
  then show "bit ?w n = bit v n"
    by cases (auto simp: bit_simps)
qed

lemma read16_write16:
  "off + 2 \<le> length buf \<Longrightarrow> read_uint16_le (write_uint16_le buf off v) off = v"
  by (simp add: read_uint16_le_def write_uint16_le_def bytes_of_u16)

lemma read32_write32:
  "off + 4 \<le> length buf \<Longrightarrow> read_uint32_le (write_uint32_le buf off v) off = v"
  by (simp add: read_uint32_le_def write_uint32_le_def bytes_of_u32)

text \<open>The bytes of a field are a function of its value.\<close>

lemma read16_bytes:
  "ucast (read_uint16_le b off) = b ! off"
  "ucast (drop_bit 8 (read_uint16_le b off)) = b ! Suc off"
  by (rule bit_word_eqI; auto simp: read_uint16_le_def bit_simps dest: bit_imp_le_length)+

lemma read32_bytes:
  "ucast (read_uint32_le b off) = b ! off"
  "ucast (drop_bit 8 (read_uint32_le b off)) = b ! (off + 1)"
  "ucast (drop_bit 16 (read_uint32_le b off)) = b ! (off + 2)"
  "ucast (drop_bit 24 (read_uint32_le b off)) = b ! (off + 3)"
  by (rule bit_word_eqI; auto simp: read_uint32_le_def bit_simps dest: bit_imp_le_length)+

interpretation u16le: le_codec 2 write_uint16_le read_uint16_le
proof
  fix off off' i :: nat and buf buf' :: bytes
  assume "read_uint16_le buf off = read_uint16_le buf' off'" and "i < 2"
  moreover from \<open>i < 2\<close> have "i = 0 \<or> i = 1" by arith
  ultimately show "buf ! (off + i) = buf' ! (off' + i)"
    using read16_bytes [of buf off] read16_bytes [of buf' off'] by auto
qed (simp_all add: read16_write16, auto simp: write_uint16_le_def read_uint16_le_def)

interpretation u32le: le_codec 4 write_uint32_le read_uint32_le
proof
  fix off off' i :: nat and buf buf' :: bytes
  assume "read_uint32_le buf off = read_uint32_le buf' off'" and "i < 4"
  moreover from \<open>i < 4\<close> have "i = 0 \<or> i = 1 \<or> i = 2 \<or> i = 3" by arith
  ultimately show "buf ! (off + i) = buf' ! (off' + i)"
    using read32_bytes [of buf off] read32_bytes [of buf' off'] by auto
qed (simp_all add: read32_write32, auto simp: write_uint32_le_def read_uint32_le_def)

lemma length_memcpy:
  "off + n \<le> length dst \<Longrightarrow> n \<le> length src \<Longrightarrow> length (memcpy dst off src n) = length dst"
  by (simp add: memcpy_def)

lemma nth_memcpy:
  "off + n \<le> length dst \<Longrightarrow> n \<le> length src \<Longrightarrow>
   i < length dst \<Longrightarrow>
   memcpy dst off src n ! i = (if off \<le> i \<and> i < off + n then src ! (i - off) else dst ! i)"
  by (auto simp: memcpy_def nth_append min_def)

lemma take_drop_memcpy:
  "off + n \<le> length dst \<Longrightarrow> n \<le> length src \<Longrightarrow>
   take n (drop off (memcpy dst off src n)) = take n src"
  by (simp add: memcpy_def)

end
