(* ===== verification/QS_Text.thy ===== *)
theory QS_Text
  imports QS_Prelude
begin

text \<open>
  Text rendering, as the stream operators and \<open>std::to_string\<close>/\<open>std::atoi\<close> of the
  standard library do it: decimal numbers, two-digit hexadecimal bytes, and from
  \<open>quicsend_tools.cpp\<close> the functions \<open>DumpHex\<close> and \<open>GetNsec\<close>. The main facts are that
  \<open>atoi\<close> reads back what \<open>to_string\<close> wrote (the HTTP status travels that way from the
  server to the client) and that a hexadecimal dump determines its bytes.
\<close>

section \<open>Digits\<close>

definition digit :: "nat \<Rightarrow> char" where
  "digit d = (if d < 10 then char_of (48 + d) else char_of (87 + d))"

definition is_digit :: "char \<Rightarrow> bool" where
  "is_digit c \<longleftrightarrow> 48 \<le> (of_char c :: nat) \<and> (of_char c :: nat) \<le> 57"

definition digit_val :: "char \<Rightarrow> nat" where
  "digit_val c = of_char c - 48"

lemma of_char_digit: "d < 16 \<Longrightarrow> (of_char (digit d) :: nat) = (if d < 10 then 48 + d else 87 + d)"
  by (simp add: digit_def)

lemma is_digit_digit [simp]: "d < 10 \<Longrightarrow> is_digit (digit d)"
  by (simp add: is_digit_def of_char_digit)

lemma digit_val_digit [simp]: "d < 10 \<Longrightarrow> digit_val (digit d) = d"
  by (simp add: digit_val_def of_char_digit)

lemma digit_inj:
  assumes "a < 16" "b < 16"
  shows "digit a = digit b \<longleftrightarrow> a = b"
proof
  assume "digit a = digit b"
  then have "(of_char (digit a) :: nat) = of_char (digit b)" by simp
  with assms show "a = b" by (simp add: of_char_digit split: if_splits)
qed simp

section \<open>Decimal numbers\<close>

fun dec :: "nat \<Rightarrow> string" where
  "dec n = (if n < 10 then [digit n] else dec (n div 10) @ [digit (n mod 10)])"

declare dec.simps [simp del]

definition to_string :: "int \<Rightarrow> string" where
  "to_string i = (if i < 0 then CHR ''-'' # dec (nat (- i)) else dec (nat i))"

fun read_digits :: "nat \<Rightarrow> string \<Rightarrow> nat" where
  "read_digits acc [] = acc"
| "read_digits acc (c # cs) =
     (if is_digit c then read_digits (10 * acc + digit_val c) cs else acc)"

definition is_space :: "char \<Rightarrow> bool" where
  "is_space c \<longleftrightarrow> (of_char c :: nat) \<in> {9, 10, 11, 12, 13, 32}"

text \<open>
  \<open>atoi\<close>: skip white space, an optional sign, then the longest run of digits; the first
  character that is none of these ends the number. An empty run gives 0. (The C function
  is undefined where the value does not fit an \<open>int\<close>; no result is claimed there.)
\<close>

definition atoi :: "string \<Rightarrow> int" where
  "atoi s = (case dropWhile is_space s of
       [] \<Rightarrow> 0
     | c # cs \<Rightarrow> if c = CHR ''-'' then - int (read_digits 0 cs)
                else if c = CHR ''+'' then int (read_digits 0 cs)
                else int (read_digits 0 (c # cs)))"

lemma dec_nonempty [simp]: "dec n \<noteq> []"
  by (subst dec.simps) simp

lemma dec_digits: "c \<in> set (dec n) \<Longrightarrow> is_digit c"
proof (induction n rule: dec.induct)
  case (1 n)
  then show ?case
    by (subst (asm) dec.simps) (auto split: if_splits)
qed

lemma read_digits_append:
  "(\<forall>c \<in> set xs. is_digit c) \<Longrightarrow>
   read_digits acc (xs @ ys) = read_digits (read_digits acc xs) ys"
  by (induction xs arbitrary: acc) auto

lemma read_digits_dec: "read_digits 0 (dec n) = n"
proof (induction n rule: dec.induct)
  case (1 n)
  show ?case
  proof (cases "n < 10")
    case True
    then show ?thesis by (subst dec.simps) simp
  next
    case False
    with 1 have IH: "read_digits 0 (dec (n div 10)) = n div 10" by simp
    have "read_digits 0 (dec (n div 10) @ [digit (n mod 10)]) = 10 * (n div 10) + n mod 10"
      by (subst read_digits_append) (auto simp: IH dest: dec_digits)
    with False show ?thesis by (subst dec.simps) simp
  qed
qed

lemma dec_inj: "dec m = dec n \<longleftrightarrow> m = n"
  by (metis read_digits_dec)

lemma digit_not_special:
  assumes "is_digit c"
  shows "\<not> is_space c" and "c \<noteq> CHR ''-''" and "c \<noteq> CHR ''+''"
  using assms by (auto simp: is_digit_def is_space_def)

lemma atoi_to_string: "atoi (to_string i) = i"
proof (cases "i < 0")
  case True
  then show ?thesis
    by (simp add: atoi_def to_string_def is_space_def read_digits_dec)
next
  case False
  obtain c cs where c: "dec (nat i) = c # cs"
    using dec_nonempty by (cases "dec (nat i)") auto
  then have "is_digit c" by (metis dec_digits list.set_intros(1))
  with False c show ?thesis
    using read_digits_dec [of "nat i"]
    by (simp add: atoi_def to_string_def digit_not_special del: read_digits.simps)
qed

lemma to_string_inj: "to_string i = to_string j \<longleftrightarrow> i = j"
  by (metis atoi_to_string)

section \<open>Hexadecimal bytes\<close>

text \<open>\<open>std::setfill('0') << std::setw(2) << std::hex << (int)b\<close>: always two digits.\<close>

definition hex2 :: "u8 \<Rightarrow> string" where
  "hex2 b = [digit (unat b div 16), digit (unat b mod 16)]"

lemma length_hex2 [simp]: "length (hex2 b) = 2"
  by (simp add: hex2_def)

lemma unat_u8_less: "unat (b :: u8) < 256"
proof -
  have "unat b < 2 ^ LENGTH(8)" by (rule unsigned_less)
  then show ?thesis by simp
qed

lemma hex2_inj: "hex2 a = hex2 b \<longleftrightarrow> a = b"
proof
  assume "hex2 a = hex2 b"
  moreover have "unat a div 16 < 16" "unat b div 16 < 16"
    using unat_u8_less [of a] unat_u8_less [of b] by simp_all
  ultimately have "unat a div 16 = unat b div 16" "unat a mod 16 = unat b mod 16"
    by (simp_all add: hex2_def digit_inj)
  then have "unat a = unat b" by (metis div_mult_mod_eq)
  then show "a = b" by (rule word_unat_eq_iff [THEN iffD2])
qed simp

section \<open>DumpHex and GetNsec\<close>

text \<open>
  \<open>DumpHex(data, size, label)\<close>; \<open>label\<close> may be a null pointer. \<open>size\<close> is what the
  caller passes; the code reads the first \<open>min(size, 32)\<close> bytes of \<open>data\<close>.
\<close>

definition DumpHex :: "bytes \<Rightarrow> nat \<Rightarrow> string option \<Rightarrow> string" where
  "DumpHex data sz label =
     (let dump_size = min sz 32 in
      (case label of Some l \<Rightarrow> l @ '' '' | None \<Rightarrow> '''') @
      ''('' @ dec sz @ '' bytes): '' @
      concat (map (\<lambda>b. hex2 b @ '' '') (take dump_size data)) @
      (if sz > 32 then ''...'' else ''''))"

text \<open>\<open>tv_sec * 1000000000 + tv_nsec\<close> in \<open>int64_t\<close>, with its wrap-around.\<close>

definition GetNsec :: "64 word \<Rightarrow> 64 word \<Rightarrow> 64 word" where
  "GetNsec tv_sec tv_nsec = tv_sec * 1000000000 + tv_nsec"

lemma concat_hex_length:
  "length (concat (map (\<lambda>b. hex2 b @ '' '') bs)) = 3 * length bs"
  by (induction bs) simp_all

lemma concat_hex_inj:
  "length xs = length ys \<Longrightarrow>
   concat (map (\<lambda>b. hex2 b @ '' '') xs) = concat (map (\<lambda>b. hex2 b @ '' '') ys) \<longleftrightarrow> xs = ys"
  by (induction xs ys rule: list_induct2) (auto simp: hex2_inj)

end
