(* ===== verification/QS_ConnId.thy ===== *)
theory QS_ConnId
  imports QS_Codec QS_Text
begin

text \<open>
  \<open>ConnectionId\<close> and \<open>ConnectionIdHash\<close> (\<open>quicsend_quiche.hpp\<close>/\<open>.cpp\<close>): a 16-byte array
  and a length. The equality and the hash look at the first \<open>Length\<close> bytes only, so the
  key of the connection map is that prefix (\<open>cid_key\<close>). The lemmas show that equality is
  equality of keys, that equal ids hash alike (what \<open>std::unordered_map\<close> needs), that a
  change of one byte always changes the hash, and that the printed form determines the id.
\<close>

definition LOCAL_CONN_ID_LEN :: nat where
  "LOCAL_CONN_ID_LEN = 16"

record conn_id =
  Id_bytes :: bytes        \<comment> \<open>\<open>std::array<uint8_t, LOCAL_CONN_ID_LEN> Id\<close>\<close>
  Length :: nat            \<comment> \<open>\<open>size_t Length\<close>\<close>

text \<open>
  The array has 16 elements by its type; the accesses below stay inside it exactly when
  \<open>Length\<close> is at most 16.
\<close>

definition cid_wf :: "conn_id \<Rightarrow> bool" where
  "cid_wf c \<longleftrightarrow> length (Id_bytes c) = LOCAL_CONN_ID_LEN \<and> Length c \<le> LOCAL_CONN_ID_LEN"

definition cid_key :: "conn_id \<Rightarrow> bytes" where
  "cid_key c = take (Length c) (Id_bytes c)"

text \<open>\<open>std::memcmp(a, b, n)\<close>: the sign of the first difference, bytes compared unsigned.\<close>

fun memcmp :: "bytes \<Rightarrow> bytes \<Rightarrow> nat \<Rightarrow> int" where
  "memcmp (x # xs) (y # ys) (Suc n) =
     (if x = y then memcmp xs ys n else if x < y then -1 else 1)"
| "memcmp _ _ _ = 0"

definition conn_id_eq :: "conn_id \<Rightarrow> conn_id \<Rightarrow> bool" where
  "conn_id_eq a b =
     (if Length a \<noteq> Length b then False
      else memcmp (Id_bytes a) (Id_bytes b) (Length a) = 0)"

definition conn_id_less :: "conn_id \<Rightarrow> conn_id \<Rightarrow> bool" where
  "conn_id_less a b \<longleftrightarrow> memcmp (Id_bytes a) (Id_bytes b) (Length a) < 0"

text \<open>\<open>Randomize\<close>: \<open>rd i\<close> is the i-th value drawn from \<open>std::random_device\<close>.\<close>

definition Randomize :: "(nat \<Rightarrow> u32) \<Rightarrow> conn_id \<Rightarrow> conn_id" where
  "Randomize rd c =
     c\<lparr>Id_bytes := map (\<lambda>i. ucast (rd i)) [0..<LOCAL_CONN_ID_LEN], Length := LOCAL_CONN_ID_LEN\<rparr>"

definition ToString :: "conn_id \<Rightarrow> string" where
  "ToString c =
     concat (map (\<lambda>i. hex2 (Id_bytes c ! i)) [0..<Length c]) @ '' ('' @ dec (Length c) @ '' bytes)''"

text \<open>FNV-1a over the first \<open>Length\<close> bytes, in \<open>uint32_t\<close> arithmetic.\<close>

fun fnv1a :: "u32 \<Rightarrow> bytes \<Rightarrow> u32" where
  "fnv1a hash [] = hash"
| "fnv1a hash (b # bs) = fnv1a ((ucast b XOR hash) * 0x01000193) bs"

definition ConnectionIdHash :: "conn_id \<Rightarrow> u32" where
  "ConnectionIdHash cid =
     fnv1a 0x811C9DC5 (map (\<lambda>i. Id_bytes cid ! i) [0..<Length cid])"

section \<open>Equality and order\<close>

lemma memcmp_eq_0: "n \<le> length xs \<Longrightarrow> n \<le> length ys \<Longrightarrow>
    memcmp xs ys n = 0 \<longleftrightarrow> take n xs = take n ys"
  by (induction xs ys n rule: memcmp.induct) auto

lemma memcmp_antisym: "memcmp ys xs n = - memcmp xs ys n"
  by (induction xs ys n rule: memcmp.induct) auto

lemma memcmp_less_trans:
  "n \<le> length xs \<Longrightarrow> n \<le> length ys \<Longrightarrow> n \<le> length zs \<Longrightarrow>
   memcmp xs ys n < 0 \<Longrightarrow> memcmp ys zs n < 0 \<Longrightarrow> memcmp xs zs n < 0"
proof (induction xs ys n arbitrary: zs rule: memcmp.induct)
  case (1 x xs y ys n)
  then show ?case
    by (cases zs) (auto split: if_splits)
qed auto

lemma cid_key_length [simp]: "cid_wf c \<Longrightarrow> length (cid_key c) = Length c"
  by (simp add: cid_wf_def cid_key_def)

lemma conn_id_eq_iff_key:
  assumes "cid_wf a" and "cid_wf b"
  shows "conn_id_eq a b \<longleftrightarrow> cid_key a = cid_key b"
proof (cases "Length a = Length b")
  case True
  with assms show ?thesis
    by (simp add: conn_id_eq_def cid_key_def cid_wf_def memcmp_eq_0)
next
  case False
  with assms have "length (cid_key a) \<noteq> length (cid_key b)" by simp
  with False show ?thesis by (auto simp: conn_id_eq_def)
qed

lemma nth_prefix: "cid_wf c \<Longrightarrow> map (\<lambda>i. Id_bytes c ! i) [0..<Length c] = cid_key c"
  by (simp add: cid_wf_def cid_key_def list_eq_iff_nth_eq)

lemma cid_wf_Randomize [simp]: "cid_wf (Randomize rd c)"
  by (simp add: cid_wf_def Randomize_def)

section \<open>Hash\<close>

text \<open>One step of the hash is injective in both arguments: the multiplier is odd.\<close>

lemma fnv_prime_inj: "(x :: u32) * 0x01000193 = y * 0x01000193 \<longleftrightarrow> x = y"
proof
  assume "x * 0x01000193 = y * 0x01000193"
  then have "x * (0x01000193 * 899433627) = y * (0x01000193 * 899433627)"
    by (simp only: mult.assoc [symmetric])
  moreover have "(0x01000193 * 899433627 :: u32) = 1" by simp
  ultimately show "x = y" by (simp only: mult_1_right)
qed simp

lemma xor_right_inj: "(a :: u32) XOR h = b XOR h \<longleftrightarrow> a = b"
proof
  assume "a XOR h = b XOR h"
  then have "(a XOR h) XOR h = (b XOR h) XOR h" by simp
  then show "a = b" by (simp only: xor.assoc xor_self_eq xor.right_neutral)
qed simp

lemma xor_left_inj: "(h :: u32) XOR a = h XOR b \<longleftrightarrow> a = b"
  using xor_right_inj [of a h b] by (simp only: xor.commute)

lemma ucast_u8_u32_inj: "(ucast (a :: u8) :: u32) = ucast b \<longleftrightarrow> a = b"
  by (rule iffI, rule bit_word_eqI) (auto simp: bit_simps dest!: arg_cong [where f = bit] fun_cong)

lemma fnv1a_inj: "fnv1a h bs = fnv1a h' bs \<longleftrightarrow> h = h'"
  by (induction bs arbitrary: h h') (auto simp: fnv_prime_inj xor_left_inj)

lemma fnv1a_append: "fnv1a h (xs @ ys) = fnv1a (fnv1a h xs) ys"
  by (induction xs arbitrary: h) auto

lemma fnv1a_one_byte:
  assumes "a \<noteq> b"
  shows "fnv1a h (xs @ a # ys) \<noteq> fnv1a h (xs @ b # ys)"
  using assms by (simp add: fnv1a_append fnv1a_inj fnv_prime_inj xor_right_inj ucast_u8_u32_inj)

lemma hash_key: "cid_wf c \<Longrightarrow> ConnectionIdHash c = fnv1a 0x811C9DC5 (cid_key c)"
  by (simp add: ConnectionIdHash_def nth_prefix)

section \<open>Printing\<close>

lemma concat_hex2_length: "length (concat (map hex2 bs)) = 2 * length bs"
  by (induction bs) simp_all

lemma concat_hex2_inj:
  "length xs = length ys \<Longrightarrow>
   concat (map hex2 xs) @ s = concat (map hex2 ys) @ t \<Longrightarrow> xs = ys \<and> s = t"
proof (induction xs ys rule: list_induct2)
  case (Cons x xs y ys)
  then have "hex2 x = hex2 y" and "concat (map hex2 xs) @ s = concat (map hex2 ys) @ t"
    by (simp_all add: append_eq_append_conv)
  with Cons.IH show ?case by (simp add: hex2_inj)
qed simp

lemma digit_no_space: "d < 16 \<Longrightarrow> digit d \<noteq> CHR '' ''"
  by (auto simp: of_char_digit dest!: arg_cong [where f = "of_char :: char \<Rightarrow> nat"] split: if_splits)

lemma hex2_no_space: "ch \<in> set (hex2 b) \<Longrightarrow> ch \<noteq> CHR '' ''"
proof -
  have "unat b div 16 < 16" using unat_u8_less [of b] by (simp add: less_mult_imp_div_less)
  then show "ch \<in> set (hex2 b) \<Longrightarrow> ch \<noteq> CHR '' ''"
    using digit_no_space [of "unat b div 16"] digit_no_space [of "unat b mod 16"]
    by (auto simp: hex2_def)
qed

lemma ToString_key:
  "cid_wf c \<Longrightarrow> ToString c = concat (map hex2 (cid_key c)) @ '' ('' @ dec (Length c) @ '' bytes)''"
  by (simp add: ToString_def nth_prefix [symmetric] comp_def)

section \<open>Properties\<close>

text \<open>
  What \<open>std::unordered_map<ConnectionId, ...>\<close> requires: \<open>operator==\<close> is an
  equivalence on well-formed ids, namely equality of the first \<open>Length\<close> bytes, and ids
  it identifies have the same hash.
\<close>

lemma conn_id_hash_respects_eq:
  assumes "cid_wf a" and "cid_wf b"
  shows "(conn_id_eq a b \<longleftrightarrow> cid_key a = cid_key b) \<and>
         (conn_id_eq a b \<longrightarrow> ConnectionIdHash a = ConnectionIdHash b)"
  using assms by (simp add: conn_id_eq_iff_key hash_key)

definition ex_short :: "u8 \<Rightarrow> conn_id" where
  "ex_short junk = \<lparr>Id_bytes = [1, 2, 3] @ replicate 13 junk, Length = 3\<rparr>"

lemma ex_short_wf: "cid_wf (ex_short j)"
  by (simp add: ex_short_def cid_wf_def LOCAL_CONN_ID_LEN_def)

lemma conn_id_hash_respects_eq_example:
  "ex_short 0 \<noteq> ex_short 1 \<and> conn_id_eq (ex_short 0) (ex_short 1) \<and>
   ConnectionIdHash (ex_short 0) = ConnectionIdHash (ex_short 1)"
proof -
  have "cid_key (ex_short 0) = cid_key (ex_short 1)" by (simp add: ex_short_def cid_key_def)
  then show ?thesis
    using conn_id_hash_respects_eq [OF ex_short_wf ex_short_wf, of 0 1]
    by (simp add: ex_short_def)
qed

text \<open>
  Two ids of the same length that differ in exactly one byte never collide: a
  single-byte change always changes the 32-bit FNV-1a hash.
\<close>

lemma conn_id_hash_one_byte:
  assumes "cid_wf a" and "cid_wf b" and "Length a = Length b" and "i < Length a"
    and "Id_bytes a ! i \<noteq> Id_bytes b ! i"
    and "\<forall>j < Length a. j \<noteq> i \<longrightarrow> Id_bytes a ! j = Id_bytes b ! j"
  shows "ConnectionIdHash a \<noteq> ConnectionIdHash b"
proof -
  let ?k = "cid_key a" and ?l = "cid_key b"
  have len: "length ?k = Length a" "length ?l = Length a" using assms(1-3) by simp_all
  have nth: "?k ! j = Id_bytes a ! j" "?l ! j = Id_bytes b ! j" if "j < Length a" for j
    using that assms(3) by (simp_all add: cid_key_def)
  have pre: "take i ?k = take i ?l" and post: "drop (Suc i) ?k = drop (Suc i) ?l"
    using assms(4,6) len nth by (auto intro!: nth_equalityI)
  have "?k = take i ?k @ ?k ! i # drop (Suc i) ?k"
    using len assms(4) by (intro id_take_nth_drop) simp
  moreover have "?l = take i ?k @ ?l ! i # drop (Suc i) ?k"
    unfolding pre post using len assms(4) by (intro id_take_nth_drop) simp
  moreover have "?k ! i \<noteq> ?l ! i" using assms(4,5) nth by simp
  ultimately have "fnv1a 0x811C9DC5 ?k \<noteq> fnv1a 0x811C9DC5 ?l"
    by (metis fnv1a_one_byte)
  with assms(1,2) show ?thesis by (simp add: hash_key)
qed

text \<open>The printed form of a well-formed id determines the id.\<close>

lemma conn_id_ToString_inj:
  assumes "cid_wf a" and "cid_wf b"
  shows "ToString a = ToString b \<longleftrightarrow> conn_id_eq a b"
proof
  assume eq: "ToString a = ToString b"
  let ?s = "\<lambda>c. '' ('' @ dec (Length c) @ '' bytes)''"
  have "Length a = Length b"
  proof (rule ccontr)
    assume ne: "Length a \<noteq> Length b"
    have "takeWhile (\<lambda>ch. ch \<noteq> CHR '' '') (ToString c) = concat (map hex2 (cid_key c))" if "cid_wf c" for c
      using that hex2_no_space by (subst ToString_key) (auto simp: takeWhile_append)
    with eq assms have "concat (map hex2 (cid_key a)) = concat (map hex2 (cid_key b))" by metis
    then have "2 * Length a = 2 * Length b"
      using assms by (metis cid_key_length concat_hex2_length)
    with ne show False by simp
  qed
  with eq assms have "cid_key a = cid_key b"
    using concat_hex2_inj [of "cid_key a" "cid_key b"] by (simp add: ToString_key)
  with assms show "conn_id_eq a b" by (simp add: conn_id_eq_iff_key)
next
  assume "conn_id_eq a b"
  with assms show "ToString a = ToString b"
    by (simp add: conn_id_eq_iff_key ToString_key)
       (metis assms(1) assms(2) cid_key_length conn_id_eq_iff_key)
qed

end
