(* ===== verification/QS_Endpoint.thy ===== *)
theory QS_Endpoint
  imports QS_Codec QS_Text
begin

text \<open>
  \<open>boost::asio::ip::udp::endpoint\<close> as the code uses it (an IPv4 or IPv6 address and a
  port), and the conversions \<open>to_sockaddr\<close> and \<open>sockaddr_to_endpoint\<close> of
  \<open>quicsend_quiche.cpp\<close>. \<open>address::to_v4()\<close>/\<open>to_v6()\<close> throw \<open>bad_address_cast\<close> for the
  other family (the documented behaviour of Boost.Asio); nothing in the program catches
  it, so it is an \<open>Uncaught\<close> result. The host is little-endian, as the supported
  x86-64 Linux targets are.
\<close>

datatype address = V4 u32 | V6 bytes u32   \<comment> \<open>the IPv6 case carries its scope id\<close>

record endpoint =
  address :: address
  port :: u16

fun is_v4 :: "address \<Rightarrow> bool" where
  "is_v4 (V4 a) = True"
| "is_v4 (V6 b s) = False"

fun to_v4 :: "address \<Rightarrow> u32 run" where
  "to_v4 (V4 a) = Inr a"
| "to_v4 (V6 b s) = Inl (Uncaught ''bad_address_cast'')"

fun to_v6_bytes :: "address \<Rightarrow> bytes run" where
  "to_v6_bytes (V4 a) = Inl (Uncaught ''bad_address_cast'')"
| "to_v6_bytes (V6 b s) = Inr b"

text \<open>\<open>to_bytes()\<close> gives an array of 16 bytes.\<close>

fun address_wf :: "address \<Rightarrow> bool" where
  "address_wf (V4 a) = True"
| "address_wf (V6 b s) = (length b = 16)"

definition endpoint_wf :: "endpoint \<Rightarrow> bool" where
  "endpoint_wf ep = address_wf (address ep)"

text \<open>
  \<open>EndpointToString\<close>: \<open>addr_to_string\<close> stands for Boost's \<open>address::to_string()\<close>.
\<close>

definition EndpointToString :: "(address \<Rightarrow> string) \<Rightarrow> endpoint \<Rightarrow> string" where
  "EndpointToString addr_to_string ep =
     addr_to_string (address ep) @ '':'' @ dec (unat (port ep))"

section \<open>Socket addresses\<close>

text \<open>
  The variants of \<open>sockaddr_storage\<close> the code builds or reads; \<open>SockOther\<close> is any other
  address family. Ports and \<open>s_addr\<close> are the values stored in the struct's fields.
\<close>

datatype sockaddr =
    SockIn u16 u32          \<comment> \<open>\<open>sin_port\<close>, \<open>sin_addr.s_addr\<close>\<close>
  | SockIn6 u16 bytes       \<comment> \<open>\<open>sin6_port\<close>, \<open>sin6_addr\<close>\<close>
  | SockOther u16           \<comment> \<open>\<open>sa_family\<close>\<close>

definition sizeof_sockaddr_in :: nat where "sizeof_sockaddr_in = 16"
definition sizeof_sockaddr_in6 :: nat where "sizeof_sockaddr_in6 = 28"

definition htons :: "u16 \<Rightarrow> u16" where
  "htons v = push_bit 8 v OR drop_bit 8 v"

fun to_sockaddr_addr :: "address \<Rightarrow> u16 \<Rightarrow> sockaddr \<times> nat" where
  "to_sockaddr_addr (V4 a) p = (SockIn (htons p) a, sizeof_sockaddr_in)"
| "to_sockaddr_addr (V6 b s) p = (SockIn6 (htons p) b, sizeof_sockaddr_in6)"

definition to_sockaddr :: "endpoint \<Rightarrow> sockaddr \<times> nat" where
  "to_sockaddr ep = to_sockaddr_addr (address ep) (port ep)"

fun sockaddr_to_endpoint :: "sockaddr \<Rightarrow> nat \<Rightarrow> endpoint run" where
  "sockaddr_to_endpoint (SockIn p a) len =
     (if len < sizeof_sockaddr_in then Inl (Uncaught ''Invalid length for IPv4 address'')
      else Inr \<lparr>address = V4 a, port = htons p\<rparr>)"
| "sockaddr_to_endpoint (SockIn6 p b) len =
     (if len < sizeof_sockaddr_in6 then Inl (Uncaught ''Invalid length for IPv6 address'')
      else Inr \<lparr>address = V6 b 0, port = htons p\<rparr>)"
| "sockaddr_to_endpoint (SockOther fam) len = Inl (Uncaught ''Unsupported address family'')"

text \<open>The address without its scope id, which a round trip through a \<open>sockaddr\<close> drops.\<close>

fun drop_scope_addr :: "address \<Rightarrow> address" where
  "drop_scope_addr (V4 a) = V4 a"
| "drop_scope_addr (V6 b s) = V6 b 0"

definition drop_scope :: "endpoint \<Rightarrow> endpoint" where
  "drop_scope ep = ep\<lparr>address := drop_scope_addr (address ep)\<rparr>"

lemma htons_htons [simp]: "htons (htons v) = v"
proof (rule bit_word_eqI)
  fix n assume "n < LENGTH(16)"
  then show "bit (htons (htons v)) n = bit v n"
    by (cases "n < 8") (auto simp: htons_def bit_simps dest: bit_imp_le_length)
qed

lemma htons_inj: "htons v = htons w \<longleftrightarrow> v = w"
  by (metis htons_htons)

lemma sockaddr_roundtrip_lemma:
  "sockaddr_to_endpoint (fst (to_sockaddr ep)) (snd (to_sockaddr ep)) = Inr (drop_scope ep)"
  by (cases ep; cases "address ep")
     (simp_all add: to_sockaddr_def drop_scope_def sizeof_sockaddr_in_def sizeof_sockaddr_in6_def)

lemma to_sockaddr_inj:
  "to_sockaddr ep = to_sockaddr ep' \<longleftrightarrow> drop_scope ep = drop_scope ep'"
proof
  assume "to_sockaddr ep = to_sockaddr ep'"
  then show "drop_scope ep = drop_scope ep'"
    using sockaddr_roundtrip_lemma [of ep] sockaddr_roundtrip_lemma [of ep'] by simp
next
  assume "drop_scope ep = drop_scope ep'"
  then show "to_sockaddr ep = to_sockaddr ep'"
    by (cases ep; cases ep'; cases "address ep"; cases "address ep'")
       (simp_all add: to_sockaddr_def drop_scope_def)
qed

section \<open>Byte order of the IPv4 address\<close>

text \<open>
  The struct field \<open>s_addr\<close> is read by the network code as four bytes of memory, the most
  significant octet of the address first. \<open>to_v4().to_ulong()\<close> is a number in host byte
  order, and it is stored without \<open>htonl\<close>; on a little-endian host the bytes in memory
  are those of \<open>write_uint32_le\<close>.
\<close>

definition s_addr_memory :: "u32 \<Rightarrow> bytes" where
  "s_addr_memory a = write_uint32_le [0, 0, 0, 0] 0 a"

definition octets :: "u32 \<Rightarrow> bytes" where
  "octets a = [ucast (drop_bit 24 a), ucast (drop_bit 16 a), ucast (drop_bit 8 a), ucast a]"

lemma s_addr_memory_rev: "s_addr_memory a = rev (octets a)"
  by (simp add: s_addr_memory_def octets_def write_uint32_le_def)

section \<open>Property\<close>


end
