(* ===== verification/QS_Socket.thy ===== *)
theory QS_Socket
  imports QS_Endpoint
begin

text \<open>
  \<open>SendAllocator\<close> and the sending half of \<open>QuicheSocket\<close>. Datagram buffers are shared by
  pointer: the pool, the code that fills a buffer and the asynchronous send that reads it
  all refer to the same object. A buffer is therefore an address into a heap, and the
  invariant \<open>sock_inv\<close> says that every buffer has one holder: the pool, a send in flight,
  or the code (the list \<open>owned\<close>). What a completed send puts on the wire is what the
  buffer held when \<open>Send\<close> was called.
\<close>

section \<open>The pool\<close>

record send_buffer =
  buf_Payload :: bytes     \<comment> \<open>the bytes written to \<open>Payload\<close>\<close>
  buf_Length :: int        \<comment> \<open>\<open>int Length\<close>\<close>

definition MAX_DATAGRAM_SEND_SIZE :: nat where "MAX_DATAGRAM_SEND_SIZE = 1350"

text \<open>
  \<open>next_buffer\<close> is the address the next \<open>make_shared\<close> returns; addresses below it have
  been handed out before.
\<close>

record send_allocator =
  free_buffers :: "nat list"
  free_buffers_count :: u32
  next_buffer :: nat
  heap :: "nat \<Rightarrow> send_buffer"

definition new_send_buffer :: send_buffer where
  "new_send_buffer = \<lparr>buf_Payload = [], buf_Length = 0\<rparr>"

text \<open>
  \<open>Allocate\<close> reads the counter before it takes the lock; \<open>seen\<close> is the result of that
  unlocked test \<open>free_buffers_count > 0\<close>, which another thread may have made stale.
\<close>

definition Allocate_seen :: "bool \<Rightarrow> send_allocator \<Rightarrow> nat \<times> send_allocator" where
  "Allocate_seen seen a =
     (if seen \<and> free_buffers a \<noteq> [] then
        (last (free_buffers a),
         a\<lparr>free_buffers := butlast (free_buffers a),
           free_buffers_count := free_buffers_count a - 1\<rparr>)
      else
        (next_buffer a,
         a\<lparr>next_buffer := Suc (next_buffer a),
           heap := (heap a)(next_buffer a := new_send_buffer)\<rparr>))"

definition Allocate :: "send_allocator \<Rightarrow> nat \<times> send_allocator" where
  "Allocate a = Allocate_seen (free_buffers_count a > 0) a"

definition Free :: "nat \<Rightarrow> send_allocator \<Rightarrow> send_allocator" where
  "Free b a = a\<lparr>free_buffers := free_buffers a @ [b],
                free_buffers_count := free_buffers_count a + 1\<rparr>"

definition new_send_allocator :: send_allocator where
  "new_send_allocator =
     \<lparr>free_buffers = [], free_buffers_count = 0, next_buffer = 0, heap = (\<lambda>_. new_send_buffer)\<rparr>"

text \<open>\<open>pool_ok L a\<close>: \<open>L\<close> are buffers outside the pool, the pool holds each of its buffers once.\<close>

definition pool_ok :: "nat set \<Rightarrow> send_allocator \<Rightarrow> bool" where
  "pool_ok L a \<longleftrightarrow>
     distinct (free_buffers a) \<and> set (free_buffers a) \<inter> L = {} \<and>
     (\<forall>b \<in> set (free_buffers a) \<union> L. b < next_buffer a) \<and>
     free_buffers_count a = of_nat (length (free_buffers a))"

text \<open>
  The contract of a buffer pool: \<open>alloc\<close> hands out a buffer nobody holds (for every
  outcome \<open>h\<close> of the unlocked test), \<open>free\<close> takes a held buffer back.
\<close>

locale buffer_pool =
  fixes alloc :: "bool \<Rightarrow> 's \<Rightarrow> 'b \<times> 's"
    and free :: "'b \<Rightarrow> 's \<Rightarrow> 's"
    and ok :: "'b set \<Rightarrow> 's \<Rightarrow> bool"
  assumes alloc_fresh: "ok L s \<Longrightarrow> fst (alloc h s) \<notin> L"
    and alloc_ok: "ok L s \<Longrightarrow> ok (insert (fst (alloc h s)) L) (snd (alloc h s))"
    and free_ok: "ok L s \<Longrightarrow> b \<in> L \<Longrightarrow> ok (L - {b}) (free b s)"
begin

lemma alloc_alloc_distinct:
  "ok L s \<Longrightarrow> fst (alloc h' (snd (alloc h s))) \<noteq> fst (alloc h s)"
  using alloc_fresh alloc_ok by fastforce

lemma alloc_free_ok: "ok L s \<Longrightarrow> ok L (free (fst (alloc h s)) (snd (alloc h s)))"
  using alloc_fresh [of L s h] alloc_ok [of L s h] free_ok
  by (metis Diff_insert_absorb insertI1)

text \<open>A buffer that some client still holds is not handed out by a run of allocations.\<close>

lemma alloc_run_distinct:
  "ok L s \<Longrightarrow> \<exists>bs s'. ok (L \<union> set bs) s' \<and> distinct bs \<and> set bs \<inter> L = {} \<and> length bs = n \<and>
     s' = ((\<lambda>s. snd (alloc h s)) ^^ n) s"
proof (induction n)
  case 0
  then show ?case by (intro exI [of _ "[]"]) simp
next
  case (Suc n)
  then obtain bs s' where IH: "ok (L \<union> set bs) s'" "distinct bs" "set bs \<inter> L = {}"
      "length bs = n" "s' = ((\<lambda>s. snd (alloc h s)) ^^ n) s"
    by blast
  let ?b = "fst (alloc h s')"
  have "?b \<notin> L \<union> set bs" using IH(1) by (rule alloc_fresh)
  moreover have "ok (L \<union> set (?b # bs)) (snd (alloc h s'))"
    using alloc_ok [OF IH(1)] by simp
  ultimately show ?case
    using IH by (intro exI [of _ "?b # bs"]) auto
qed

end

interpretation pool: buffer_pool Allocate_seen Free pool_ok
proof
  fix L s h
  assume ok: "pool_ok L s"
  show "fst (Allocate_seen h s) \<notin> L"
    using ok last_in_set [of "free_buffers s"]
    by (auto simp: pool_ok_def Allocate_seen_def disjoint_iff)
  show "pool_ok (insert (fst (Allocate_seen h s)) L) (snd (Allocate_seen h s))"
  proof (cases "h \<and> free_buffers s \<noteq> []")
    case True
    then obtain ys y where "free_buffers s = ys @ [y]"
      by (cases "free_buffers s" rule: rev_cases) auto
    with True ok show ?thesis
      by (auto simp: pool_ok_def Allocate_seen_def)
  next
    case False
    then show ?thesis
      using ok by (auto simp: pool_ok_def Allocate_seen_def less_Suc_eq)
  qed
next
  fix L s b
  assume "pool_ok L s" and "b \<in> L"
  then show "pool_ok (L - {b}) (Free b s)"
    by (auto simp: pool_ok_def Free_def add.commute)
qed

lemma Allocate_heap_other:
  "b \<noteq> next_buffer a \<Longrightarrow> heap (snd (Allocate_seen h a)) b = heap a b"
  by (simp add: Allocate_seen_def)

lemma Free_heap [simp]: "heap (Free b a) = heap a" "next_buffer (Free b a) = next_buffer a"
  by (simp_all add: Free_def)

section \<open>The socket\<close>

text \<open>
  A send in flight: \<open>boost::asio::buffer(Payload, Length)\<close> is a pointer and a length taken
  when \<open>Send\<close> is called; the bytes are read later. \<open>fl_intended\<close> and the first component
  of \<open>wire\<close>'s entries are ghosts: what the buffer held at the call. The second component
  is what was read from the buffer when the send completed.
\<close>

record flight =
  fl_buffer :: nat
  fl_length :: nat
  fl_dest :: endpoint
  fl_intended :: bytes

record qsocket =
  allocator :: send_allocator
  in_flight :: "flight list"
  wire :: "(bytes \<times> bytes \<times> endpoint) list"

definition new_qsocket :: qsocket where
  "new_qsocket = \<lparr>allocator = new_send_allocator, in_flight = [], wire = []\<rparr>"

definition buffer_bytes :: "qsocket \<Rightarrow> nat \<Rightarrow> nat \<Rightarrow> bytes" where
  "buffer_bytes s b n = take n (buf_Payload (heap (allocator s) b))"

text \<open>The code fills a buffer it holds: \<open>quiche\<close> writes the payload, then \<open>Length\<close> is set.\<close>

definition fill_buffer :: "nat \<Rightarrow> bytes \<Rightarrow> int \<Rightarrow> qsocket \<Rightarrow> qsocket" where
  "fill_buffer b data len s =
     s\<lparr>allocator := (allocator s)
         \<lparr>heap := (heap (allocator s))(b := \<lparr>buf_Payload = data, buf_Length = len\<rparr>)\<rparr>\<rparr>"

definition sock_Allocate :: "qsocket \<Rightarrow> nat \<times> qsocket" where
  "sock_Allocate s = (case Allocate (allocator s) of (b, a) \<Rightarrow> (b, s\<lparr>allocator := a\<rparr>))"

definition sock_Free :: "nat \<Rightarrow> qsocket \<Rightarrow> qsocket" where
  "sock_Free b s = s\<lparr>allocator := Free b (allocator s)\<rparr>"

text \<open>\<open>QuicheSocket::Send\<close> starts the asynchronous send.\<close>

definition Send :: "nat \<Rightarrow> endpoint \<Rightarrow> qsocket \<Rightarrow> qsocket" where
  "Send b dest s =
     (let len = nat (buf_Length (heap (allocator s) b)) in
      s\<lparr>in_flight := in_flight s @
          [\<lparr>fl_buffer = b, fl_length = len, fl_dest = dest, fl_intended = buffer_bytes s b len\<rparr>]\<rparr>)"

text \<open>
  The completion handler of the k-th send in flight. With an error nothing is sent; the
  buffer goes back to the pool either way (a short count is only logged).
\<close>

definition Send_complete :: "nat \<Rightarrow> bool \<Rightarrow> qsocket \<Rightarrow> qsocket" where
  "Send_complete k err s =
     (if k < length (in_flight s) then
        let f = in_flight s ! k;
            s = s\<lparr>wire := (if err then wire s
                         else wire s @ [(fl_intended f, buffer_bytes s (fl_buffer f) (fl_length f), fl_dest f)]),
                  in_flight := take k (in_flight s) @ drop (Suc k) (in_flight s)\<rparr>
        in sock_Free (fl_buffer f) s
      else s)"

section \<open>Every buffer has one holder\<close>

definition flight_buffers :: "qsocket \<Rightarrow> nat list" where
  "flight_buffers s = map fl_buffer (in_flight s)"

definition sock_inv :: "nat list \<Rightarrow> qsocket \<Rightarrow> bool" where
  "sock_inv owned s \<longleftrightarrow>
     distinct (flight_buffers s @ owned) \<and>
     pool_ok (set (flight_buffers s) \<union> set owned) (allocator s) \<and>
     (\<forall>f \<in> set (in_flight s). buffer_bytes s (fl_buffer f) (fl_length f) = fl_intended f) \<and>
     (\<forall>(intended, sent, dest) \<in> set (wire s). sent = intended)"

lemma sock_inv_new: "sock_inv [] new_qsocket"
  by (simp add: sock_inv_def new_qsocket_def flight_buffers_def pool_ok_def new_send_allocator_def)

lemma sock_inv_perm: "sock_inv xs s \<Longrightarrow> set xs = set ys \<Longrightarrow> length xs = length ys \<Longrightarrow> sock_inv ys s"
  unfolding sock_inv_def by (metis card_distinct distinct_append distinct_card)

lemma sock_inv_owned:
  assumes "sock_inv owned s" and "f \<in> set (in_flight s)"
  shows "fl_buffer f \<notin> set owned" and "fl_buffer f \<notin> set (free_buffers (allocator s))"
    and "fl_buffer f < next_buffer (allocator s)"
  using assms by (auto simp: sock_inv_def pool_ok_def flight_buffers_def disjoint_iff)

definition sock_Allocate_seen :: "bool \<Rightarrow> qsocket \<Rightarrow> nat \<times> qsocket" where
  "sock_Allocate_seen h s =
     (fst (Allocate_seen h (allocator s)), s\<lparr>allocator := snd (Allocate_seen h (allocator s))\<rparr>)"

lemma sock_Allocate_eq:
  "sock_Allocate s = sock_Allocate_seen (free_buffers_count (allocator s) > 0) s"
  by (simp add: sock_Allocate_def sock_Allocate_seen_def Allocate_def split: prod.split)

lemma sock_Allocate_seen_inv:
  assumes "sock_inv owned s"
  shows "sock_inv (fst (sock_Allocate_seen h s) # owned) (snd (sock_Allocate_seen h s))"
proof -
  let ?L = "set (flight_buffers s) \<union> set owned"
  have ok: "pool_ok ?L (allocator s)" using assms by (simp add: sock_inv_def)
  note fresh = pool.alloc_fresh [OF ok, of h] and ok' = pool.alloc_ok [OF ok, of h]
  have "buffer_bytes (s\<lparr>allocator := snd (Allocate_seen h (allocator s))\<rparr>) (fl_buffer f) n =
        buffer_bytes s (fl_buffer f) n" if "f \<in> set (in_flight s)" for f n
    using sock_inv_owned(3) [OF assms that]
    by (simp add: buffer_bytes_def Allocate_heap_other)
  with assms fresh ok' show ?thesis
    by (auto simp: sock_inv_def sock_Allocate_seen_def flight_buffers_def)
qed

lemma sock_Allocate_inv:
  "sock_inv owned s \<Longrightarrow> sock_Allocate s = (b, s') \<Longrightarrow> sock_inv (b # owned) s'"
  using sock_Allocate_seen_inv [of owned s "free_buffers_count (allocator s) > 0"]
  by (simp add: sock_Allocate_eq)

lemma sock_Free_inv:
  assumes "sock_inv owned s" and "b \<in> set owned"
  shows "sock_inv (remove1 b owned) (sock_Free b s)"
proof -
  have d: "distinct owned" "b \<notin> set (flight_buffers s)"
    and ok: "pool_ok (set (flight_buffers s) \<union> set owned) (allocator s)"
    using assms by (auto simp: sock_inv_def)
  have "set (flight_buffers s) \<union> set owned - {b} = set (flight_buffers s) \<union> set (remove1 b owned)"
    using d by auto
  with pool.free_ok [OF ok, of b] assms d show ?thesis
    by (auto simp: sock_inv_def sock_Free_def flight_buffers_def buffer_bytes_def)
qed

lemma fill_buffer_inv:
  "sock_inv owned s \<Longrightarrow> b \<in> set owned \<Longrightarrow> sock_inv owned (fill_buffer b data len s)"
  by (auto simp: sock_inv_def fill_buffer_def flight_buffers_def buffer_bytes_def pool_ok_def disjoint_iff)

lemma Send_inv:
  assumes "sock_inv owned s" and "b \<in> set owned"
  shows "sock_inv (remove1 b owned) (Send b dest s)"
proof -
  have "set (flight_buffers s) \<union> set owned =
      insert b (set (flight_buffers s)) \<union> set (remove1 b owned)"
    using assms by (auto simp: sock_inv_def)
  with assms show ?thesis
    by (auto simp: sock_inv_def Send_def Let_def flight_buffers_def buffer_bytes_def Un_commute)
qed

lemma Send_complete_inv:
  assumes "sock_inv owned s"
  shows "sock_inv owned (Send_complete k err s)"
proof (cases "k < length (in_flight s)")
  case True
  let ?fs = "take k (in_flight s) @ drop (Suc k) (in_flight s)" and ?f = "in_flight s ! k"
  let ?s = "s\<lparr>wire := (if err then wire s else wire s @
      [(fl_intended ?f, buffer_bytes s (fl_buffer ?f) (fl_length ?f), fl_dest ?f)]), in_flight := ?fs\<rparr>"
  have split: "in_flight s = take k (in_flight s) @ ?f # drop (Suc k) (in_flight s)"
    using True by (rule id_take_nth_drop)
  then have mem: "set (in_flight s) = insert ?f (set ?fs)"
    and fb: "flight_buffers s = map fl_buffer (take k (in_flight s)) @ fl_buffer ?f #
        map fl_buffer (drop (Suc k) (in_flight s))"
    unfolding flight_buffers_def
    by (metis Un_insert_right list.simps(15) set_append, metis list.simps(9) map_append)
  have "sock_inv (fl_buffer ?f # owned) ?s"
    using assms mem fb
    by (auto simp: sock_inv_def flight_buffers_def buffer_bytes_def insert_commute Un_assoc image_Un)
  from sock_Free_inv [OF this, of "fl_buffer ?f"] True show ?thesis
    by (cases err) (simp_all add: Send_complete_def Let_def)
next
  case False
  with assms show ?thesis by (simp add: Send_complete_def)
qed

section \<open>Interleaved use by several threads\<close>

text \<open>
  Each step is one critical section of some thread: the io thread's completions, and the
  allocations, fills, sends and releases of whichever thread holds the buffer. The first
  component lists the buffers held by code. \<open>h\<close> is the stale or fresh outcome of the
  allocator's unlocked test.
\<close>

inductive sock_step :: "nat list \<times> qsocket \<Rightarrow> nat list \<times> qsocket \<Rightarrow> bool" where
  step_alloc: "sock_step (owned, s)
     (fst (sock_Allocate_seen h s) # owned, snd (sock_Allocate_seen h s))"
| step_fill: "b \<in> set owned \<Longrightarrow> sock_step (owned, s) (owned, fill_buffer b data len s)"
| step_send: "b \<in> set owned \<Longrightarrow> sock_step (owned, s) (remove1 b owned, Send b dest s)"
| step_free: "b \<in> set owned \<Longrightarrow> sock_step (owned, s) (remove1 b owned, sock_Free b s)"
| step_complete: "sock_step (owned, s) (owned, Send_complete k err s)"

inductive_cases sock_stepE: "sock_step (owned, s) t"

abbreviation sock_steps :: "nat list \<times> qsocket \<Rightarrow> nat list \<times> qsocket \<Rightarrow> bool" where
  "sock_steps \<equiv> rtranclp sock_step"

lemma sock_step_inv:
  "sock_step x y \<Longrightarrow> sock_inv (fst x) (snd x) \<Longrightarrow> sock_inv (fst y) (snd y)"
  by (induction rule: sock_step.induct)
     (auto intro: sock_Allocate_seen_inv fill_buffer_inv Send_inv sock_Free_inv Send_complete_inv)

lemma sock_steps_inv:
  "sock_steps x y \<Longrightarrow> sock_inv (fst x) (snd x) \<Longrightarrow> sock_inv (fst y) (snd y)"
  by (induction rule: rtranclp_induct) (auto intro: sock_step_inv)

lemma sock_steps_alloc:
  "sock_Allocate s = (b, s') \<Longrightarrow> sock_steps (owned, s) (b # owned, s')"
  using sock_step.step_alloc [of owned s "free_buffers_count (allocator s) > 0"]
  by (simp add: sock_Allocate_eq r_into_rtranclp)

lemma sock_steps_send:
  "sock_steps (b # owned, s) (owned, Send b dest (fill_buffer b data len s))"
proof -
  have "sock_step (b # owned, s) (b # owned, fill_buffer b data len s)"
    by (rule step_fill) simp
  moreover have "sock_step (b # owned, fill_buffer b data len s)
      (remove1 b (b # owned), Send b dest (fill_buffer b data len s))"
    by (rule step_send) simp
  ultimately show ?thesis by (simp add: rtranclp.rtrancl_into_rtrancl r_into_rtranclp)
qed

lemma sock_steps_free: "sock_steps (b # owned, s) (owned, sock_Free b s)"
  using step_free [of b "b # owned" s] by (simp add: r_into_rtranclp)

section \<open>Properties\<close>

text \<open>
  C17: Zero-copy sends are safe under every interleaving: from an empty socket, whatever
  order threads allocate, fill, send and release buffers and sends complete in, every
  datagram put on the wire carries the bytes its buffer held when \<open>Send\<close> was called, and
  no buffer is in the pool or held by code while a send that reads it is in flight.
\<close>

theorem datagram_integrity:
  assumes "sock_steps ([], new_qsocket) (owned, s)"
  shows "(\<forall>(intended, sent, dest) \<in> set (wire s). sent = intended) \<and>
         distinct (free_buffers (allocator s) @ flight_buffers s @ owned)"
proof -
  have "sock_inv owned s"
    using sock_steps_inv [OF assms] sock_inv_new by simp
  then show ?thesis by (auto simp: sock_inv_def pool_ok_def)
qed

definition ex_dest :: endpoint where
  "ex_dest = \<lparr>address = V4 1, port = 4433\<rparr>"

definition ex_sent :: qsocket where
  "ex_sent = Send_complete 0 False (Send 0 ex_dest (fill_buffer 0 [7, 8] 2 (snd (sock_Allocate new_qsocket))))"

theorem datagram_integrity_witness:
  "wire ex_sent = [([7, 8], [7, 8], ex_dest)] \<and> free_buffers (allocator ex_sent) = [0] \<and>
   map (fst \<circ> snd) (wire ex_sent) = map fst (wire ex_sent)"
proof -
  let ?s = "snd (sock_Allocate new_qsocket)"
  have a: "sock_Allocate new_qsocket = (0, ?s)"
    by (simp add: sock_Allocate_def Allocate_def Allocate_seen_def new_qsocket_def new_send_allocator_def)
  have "sock_steps ([], new_qsocket) ([], Send 0 ex_dest (fill_buffer 0 [7, 8] 2 ?s))"
    using sock_steps_alloc [OF a] sock_steps_send by (rule rtranclp_trans)
  then have "sock_steps ([], new_qsocket) ([], ex_sent)"
    unfolding ex_sent_def by (rule rtranclp.rtrancl_into_rtrancl) (rule step_complete)
  note integrity = datagram_integrity [OF this]
  have "wire ex_sent = [([7, 8], [7, 8], ex_dest)]" and "free_buffers (allocator ex_sent) = [0]"
    by (simp_all add: ex_sent_def Send_complete_def Send_def fill_buffer_def sock_Free_def Free_def
        buffer_bytes_def sock_Allocate_def Allocate_def Allocate_seen_def new_qsocket_def
        new_send_allocator_def Let_def)
  with integrity show ?thesis by simp
qed


end
