(* ===== verification/QS_Quiche.thy ===== *)
theory QS_Quiche
  imports QS_Errors QS_ConnId QS_Socket QS_Mailbox
begin

text \<open>
  What the connection code shares with its surroundings.
  \<^item> The quiche library is not part of the repository: it is the parameter \<open>'q quiche\<close>, a
    record with one function per C entry point over an unknown state \<open>'q\<close> (the connection
    object and the HTTP/3 object behind the two pointers). Nothing is assumed of these
    functions unless a theorem says so.
  \<^item> The data of \<open>quicsend_quiche.hpp\<close>: incoming and outgoing streams, cached responses,
    mailbox events, the connection and the part of its owner (socket, mailbox, flags) that
    callbacks reach.
  \<^item> Every call that exchanges something with the peer through quiche is recorded, with its
    arguments and result, in the ghost list \<open>calls\<close>; the theorems about what was sent and
    received are about this record.
\<close>

section \<open>The quiche library\<close>

type_synonym header = "string \<times> string"

datatype h3_event =
    EvHeaders "header list" | EvData | EvFinished | EvReset | EvPriorityUpdate | EvGoAway | EvOther

datatype shutdown_dir = ShutdownRead | ShutdownWrite

record 'q quiche =
  q_err :: "quiche_err \<Rightarrow> int"
  q_h3err :: "h3_err \<Rightarrow> int"
  q_accept :: "bytes \<Rightarrow> bytes \<Rightarrow> sockaddr \<times> nat \<Rightarrow> sockaddr \<times> nat \<Rightarrow> 'q option"
  q_connect :: "string \<Rightarrow> bytes \<Rightarrow> sockaddr \<times> nat \<Rightarrow> sockaddr \<times> nat \<Rightarrow> 'q option"
  q_conn_recv :: "bytes \<Rightarrow> sockaddr \<times> nat \<Rightarrow> sockaddr \<times> nat \<Rightarrow> 'q \<Rightarrow> int \<times> 'q"
  q_conn_send :: "nat \<Rightarrow> 'q \<Rightarrow> (int \<times> bytes \<times> sockaddr \<times> nat) \<times> 'q"
  q_is_established :: "'q \<Rightarrow> bool"
  q_is_closed :: "'q \<Rightarrow> bool"
  q_timeout_as_millis :: "'q \<Rightarrow> u64"
  q_on_timeout :: "'q \<Rightarrow> 'q"
  q_close :: "string \<Rightarrow> 'q \<Rightarrow> 'q"
  q_stream_shutdown :: "u64 \<Rightarrow> shutdown_dir \<Rightarrow> 'q \<Rightarrow> 'q"
  q_peer_cert :: "'q \<Rightarrow> bytes"
  q_h3_conn_new :: "'q \<Rightarrow> bool \<times> 'q"
  q_h3_poll :: "'q \<Rightarrow> (int \<times> h3_event) \<times> 'q"
  q_h3_recv_body :: "u64 \<Rightarrow> nat \<Rightarrow> 'q \<Rightarrow> (int \<times> bytes) \<times> 'q"
  q_h3_send_request :: "header list \<Rightarrow> bool \<Rightarrow> 'q \<Rightarrow> int \<times> 'q"
  q_h3_send_response :: "u64 \<Rightarrow> header list \<Rightarrow> bool \<Rightarrow> 'q \<Rightarrow> int \<times> 'q"
  q_h3_send_body :: "u64 \<Rightarrow> bytes \<Rightarrow> bool \<Rightarrow> 'q \<Rightarrow> int \<times> 'q"
  q_h3_send_goaway :: "u64 \<Rightarrow> 'q \<Rightarrow> int \<times> 'q"

text \<open>
  Memory the program reads after it was freed: cached response headers are pointers into
  the caller's strings, which are gone when the cache is flushed, and the sender's loop
  reads through a reference into an erased map node. What such a read gives is unknown:
  the parameter maps what was there to what is read (or to an abort).
\<close>

record freed_memory =
  freed_headers :: "header list \<Rightarrow> header list run"
  freed_assigned_id :: "u64 \<Rightarrow> u64 run"

section \<open>Streams and events\<close>

record incoming_stream =
  in_Id :: u64
  Method :: string
  Path :: string
  Status :: string
  Authorization :: string
  ContentType :: string
  HeaderInfo :: string
  in_Buffer :: bytes

definition new_incoming_stream :: "u64 \<Rightarrow> incoming_stream" where
  "new_incoming_stream i =
     \<lparr>in_Id = i, Method = '''', Path = '''', Status = '''', Authorization = '''',
      ContentType = '''', HeaderInfo = '''', in_Buffer = []\<rparr>"

definition QUICSEND_HEADER_INFO :: string where
  "QUICSEND_HEADER_INFO = ''quicsend-header-info''"

definition OnHeader :: "string \<Rightarrow> string \<Rightarrow> incoming_stream \<Rightarrow> incoming_stream" where
  "OnHeader name val st =
     (if name = '':method'' then st\<lparr>Method := val\<rparr>
      else if name = '':path'' then st\<lparr>Path := val\<rparr>
      else if name = '':status'' then st\<lparr>Status := val\<rparr>
      else if name = ''Authorization'' then st\<lparr>Authorization := val\<rparr>
      else if name = ''content-type'' then st\<lparr>ContentType := val\<rparr>
      else if name = QUICSEND_HEADER_INFO then st\<lparr>HeaderInfo := val\<rparr>
      else st)"

definition OnData :: "bytes \<Rightarrow> incoming_stream \<Rightarrow> incoming_stream" where
  "OnData data st = st\<lparr>in_Buffer := in_Buffer st @ data\<rparr>"

record outgoing_stream =
  out_Id :: u64
  SendOffset :: int
  out_Buffer :: bytes

definition new_outgoing_stream :: "u64 \<Rightarrow> outgoing_stream" where
  "new_outgoing_stream i = \<lparr>out_Id = i, SendOffset = 0, out_Buffer = []\<rparr>"

record cached_response =
  cr_stream_id :: u64
  cr_headers :: "header list"
  cr_data :: "bytes option"
  cr_bytes_left :: int

datatype event_type = Invalid | ConnectEvent | TimeoutEvent | DataEvent

record event =
  ev_Type :: event_type
  ev_PeerEndpoint :: endpoint
  ev_ConnectionAssignedId :: u64
  ev_Stream :: "incoming_stream option"

text \<open>A default-constructed \<open>udp::endpoint\<close> is 0.0.0.0 with port 0.\<close>

definition default_endpoint :: endpoint where
  "default_endpoint = \<lparr>address = V4 0, port = 0\<rparr>"

definition new_event :: event where
  "new_event = \<lparr>ev_Type = Invalid, ev_PeerEndpoint = default_endpoint,
                ev_ConnectionAssignedId = 0, ev_Stream = None\<rparr>"

section \<open>The connection\<close>

datatype qcall =
    CallRequest "header list" bool int
  | CallResponse u64 "header list" bool int
  | CallBody u64 bytes bool int
  | CallRecv u64 int bytes
  | CallShutdown u64 shutdown_dir
  | CallClose string
  | CallGoaway u64 int

text \<open>
  \<open>QuicheConnection\<close>. \<open>conn\<close> is \<open>None\<close> for a null \<open>conn_\<close>; \<open>http3\<close> says whether \<open>http3_\<close>
  is set; \<open>timed_out\<close> is \<open>timeout_\<close>; \<open>connection_timer\<close> holds the endpoint the armed
  connect timer will retry. \<open>calls\<close> and \<open>conns_made\<close> (the \<open>quiche_conn\<close> objects created so
  far) are ghosts.
\<close>

record 'q qconn =
  IsServer :: bool
  AssignedId :: u64
  dcid :: conn_id
  conn :: "'q option"
  http3 :: bool
  connected :: bool
  timed_out :: bool
  timer_set :: bool
  connection_timer :: "endpoint option"
  peer_endpoint :: endpoint
  incoming_streams_by_id :: "(u64, incoming_stream) umap"
  outgoing_streams_by_id :: "(u64, outgoing_stream) umap"
  highest_processed_stream_id :: u64
  goaway_sent :: bool
  response_cache :: "cached_response list"
  calls :: "qcall list"
  conns_made :: nat

definition Initialize :: "bool \<Rightarrow> u64 \<Rightarrow> conn_id \<Rightarrow> 'q qconn" where
  "Initialize is_server assigned_id cid =
     \<lparr>IsServer = is_server, AssignedId = assigned_id, dcid = cid, conn = None, http3 = False,
      connected = False, timed_out = False, timer_set = False, connection_timer = None,
      peer_endpoint = default_endpoint, incoming_streams_by_id = [], outgoing_streams_by_id = [],
      highest_processed_stream_id = 0, goaway_sent = False, response_cache = [],
      calls = [], conns_made = 0\<rparr>"

text \<open>
  The owner's part: the socket of \<open>settings_.qs\<close>, the owner's mailbox and its \<open>closed_\<close>
  flag. A callback gets and returns the pair of both (\<open>'q cst\<close>).
\<close>

record host =
  net :: qsocket
  local_endpoint :: endpoint
  mailbox :: "event mailbox"
  closed :: bool

record 'q cst =
  cn :: "'q qconn"
  hs :: host

record 'q callbacks =
  on_connect :: "u64 \<Rightarrow> endpoint \<Rightarrow> 'q cst \<Rightarrow> 'q cst run"
  on_timeout :: "u64 \<Rightarrow> 'q cst \<Rightarrow> 'q cst run"
  on_data :: "event \<Rightarrow> 'q cst \<Rightarrow> 'q cst run"

section \<open>Calls into quiche\<close>

definition call_conn :: "('q \<Rightarrow> 'a \<times> 'q) \<Rightarrow> 'q qconn \<Rightarrow> ('a \<times> 'q qconn) run" where
  "call_conn f c = (case conn c of None \<Rightarrow> Inl NullDeref
     | Some q \<Rightarrow> Inr (fst (f q), c\<lparr>conn := Some (snd (f q))\<rparr>))"

definition call_h3 :: "('q \<Rightarrow> 'a \<times> 'q) \<Rightarrow> 'q qconn \<Rightarrow> ('a \<times> 'q qconn) run" where
  "call_h3 f c = (if http3 c then call_conn f c else Inl NullDeref)"

definition read_conn :: "('q \<Rightarrow> 'a) \<Rightarrow> 'q qconn \<Rightarrow> 'a run" where
  "read_conn f c = (case conn c of None \<Rightarrow> Inl NullDeref | Some q \<Rightarrow> Inr (f q))"

definition record_call :: "qcall \<Rightarrow> 'q qconn \<Rightarrow> 'q qconn" where
  "record_call x c = c\<lparr>calls := calls c @ [x]\<rparr>"

definition h3_send_body :: "'q quiche \<Rightarrow> u64 \<Rightarrow> bytes \<Rightarrow> bool \<Rightarrow> 'q qconn \<Rightarrow> (int \<times> 'q qconn) run" where
  "h3_send_body Q sid data fin c =
     rbind (call_h3 (q_h3_send_body Q sid data fin) c) (\<lambda>(r, c).
       Inr (r, record_call (CallBody sid data fin r) c))"

definition h3_send_response ::
    "'q quiche \<Rightarrow> u64 \<Rightarrow> header list \<Rightarrow> bool \<Rightarrow> 'q qconn \<Rightarrow> (int \<times> 'q qconn) run" where
  "h3_send_response Q sid hdrs fin c =
     rbind (call_h3 (q_h3_send_response Q sid hdrs fin) c) (\<lambda>(r, c).
       Inr (r, record_call (CallResponse sid hdrs fin r) c))"

definition h3_send_request :: "'q quiche \<Rightarrow> header list \<Rightarrow> bool \<Rightarrow> 'q qconn \<Rightarrow> (int \<times> 'q qconn) run" where
  "h3_send_request Q hdrs fin c =
     rbind (call_h3 (q_h3_send_request Q hdrs fin) c) (\<lambda>(r, c).
       Inr (r, record_call (CallRequest hdrs fin r) c))"

definition h3_recv_body :: "'q quiche \<Rightarrow> u64 \<Rightarrow> nat \<Rightarrow> 'q qconn \<Rightarrow> ((int \<times> bytes) \<times> 'q qconn) run" where
  "h3_recv_body Q sid room c =
     rbind (call_h3 (q_h3_recv_body Q sid room) c) (\<lambda>((len, data), c).
       Inr ((len, data), record_call (CallRecv sid len data) c))"

definition conn_close :: "'q quiche \<Rightarrow> string \<Rightarrow> 'q qconn \<Rightarrow> 'q qconn run" where
  "conn_close Q reason c =
     rbind (call_conn (\<lambda>q. ((), q_close Q reason q)) c) (\<lambda>(_, c).
       Inr (record_call (CallClose reason) c))"

definition h3_send_goaway :: "'q quiche \<Rightarrow> u64 \<Rightarrow> 'q qconn \<Rightarrow> (int \<times> 'q qconn) run" where
  "h3_send_goaway Q i c =
     rbind (call_h3 (q_h3_send_goaway Q i) c) (\<lambda>(r, c).
       Inr (r, record_call (CallGoaway i r) c))"

definition stream_shutdown :: "'q quiche \<Rightarrow> u64 \<Rightarrow> shutdown_dir \<Rightarrow> 'q qconn \<Rightarrow> 'q qconn run" where
  "stream_shutdown Q sid dir c =
     rbind (call_conn (\<lambda>q. ((), q_stream_shutdown Q sid dir q)) c) (\<lambda>(_, c).
       Inr (record_call (CallShutdown sid dir) c))"

lemmas call_defs = call_conn_def call_h3_def read_conn_def record_call_def

lemma h3_send_body_cases:
  assumes "h3_send_body Q sid data fin c = Inr (r, c')"
  obtains q where "http3 c" and "conn c = Some q"
    and "r = fst (q_h3_send_body Q sid data fin q)"
    and "c' = c\<lparr>conn := Some (snd (q_h3_send_body Q sid data fin q)),
               calls := calls c @ [CallBody sid data fin r]\<rparr>"
  using assms by (auto simp: h3_send_body_def call_defs split: if_splits option.splits)

lemma h3_send_response_cases:
  assumes "h3_send_response Q sid hdrs fin c = Inr (r, c')"
  obtains q where "http3 c" and "conn c = Some q"
    and "r = fst (q_h3_send_response Q sid hdrs fin q)"
    and "c' = c\<lparr>conn := Some (snd (q_h3_send_response Q sid hdrs fin q)),
               calls := calls c @ [CallResponse sid hdrs fin r]\<rparr>"
  using assms by (auto simp: h3_send_response_def call_defs split: if_splits option.splits)

lemma h3_send_request_cases:
  assumes "h3_send_request Q hdrs fin c = Inr (r, c')"
  obtains q where "http3 c" and "conn c = Some q"
    and "r = fst (q_h3_send_request Q hdrs fin q)"
    and "c' = c\<lparr>conn := Some (snd (q_h3_send_request Q hdrs fin q)),
               calls := calls c @ [CallRequest hdrs fin r]\<rparr>"
  using assms by (auto simp: h3_send_request_def call_defs split: if_splits option.splits)

end
