(* ===== verification/QS_Conn.thy ===== *)
theory QS_Conn
  imports QS_Quiche
begin

text \<open>
  The operations of \<open>QuicheConnection\<close> (\<open>quicsend_quiche.cpp\<close>, lines 513 to 1219), one
  definition per member function, in dependency order. \<open>Q\<close> is the quiche library, \<open>F\<close> the
  contents of freed memory, \<open>cb\<close> the owner's callbacks and \<open>n\<close> the fuel of the loops that
  run until quiche reports that it is done (\<open>Inl Diverges\<close> when it is used up). All
  operations run under the connection's recursive mutex, so each is one atomic step. Log
  output is not modelled.
\<close>

abbreviation H3_BLOCKED :: "'q quiche \<Rightarrow> int" where
  "H3_BLOCKED Q \<equiv> q_h3err Q QUICHE_H3_ERR_STREAM_BLOCKED"

section \<open>Streams\<close>

definition GetIncomingStream :: "u64 \<Rightarrow> bool \<Rightarrow> 'q qconn \<Rightarrow> incoming_stream option \<times> 'q qconn" where
  "GetIncomingStream sid create c =
     (case um_find sid (incoming_streams_by_id c) of
        Some st \<Rightarrow> (Some st, c)
      | None \<Rightarrow>
          if \<not> create then (None, c)
          else (Some (new_incoming_stream sid),
                c\<lparr>incoming_streams_by_id := um_put sid (new_incoming_stream sid) (incoming_streams_by_id c)\<rparr>))"

definition GetOutgoingStream :: "u64 \<Rightarrow> bool \<Rightarrow> 'q qconn \<Rightarrow> outgoing_stream option \<times> 'q qconn" where
  "GetOutgoingStream sid create c =
     (case um_find sid (outgoing_streams_by_id c) of
        Some st \<Rightarrow> (Some st, c)
      | None \<Rightarrow>
          if \<not> create then (None, c)
          else (Some (new_outgoing_stream sid),
                c\<lparr>outgoing_streams_by_id := um_put sid (new_outgoing_stream sid) (outgoing_streams_by_id c)\<rparr>))"

definition DestroyStream :: "'q quiche \<Rightarrow> u64 \<Rightarrow> 'q qconn \<Rightarrow> 'q qconn run" where
  "DestroyStream Q sid c =
     rbind (stream_shutdown Q sid ShutdownRead c) (\<lambda>c.
     rbind (stream_shutdown Q sid ShutdownWrite c) (\<lambda>c.
       Inr (c\<lparr>incoming_streams_by_id := um_erase sid (incoming_streams_by_id c),
              outgoing_streams_by_id := um_erase sid (outgoing_streams_by_id c)\<rparr>)))"

section \<open>Flushing\<close>

text \<open>
  One iteration of the loop over \<open>response_cache_\<close>: \<open>Some\<close> of the entry if it stays in the
  cache, \<open>None\<close> if it is erased. The body is always sent from the start of \<open>data\<close>,
  \<open>bytes_left\<close> bytes of it.
\<close>

definition send_cached_body ::
    "'q quiche \<Rightarrow> cached_response \<Rightarrow> 'q qconn \<Rightarrow> (cached_response option \<times> 'q qconn) run" where
  "send_cached_body Q cr c =
     (case cr_data cr of
        Some data \<Rightarrow>
          if cr_bytes_left cr > 0 then
            rbind (h3_send_body Q (cr_stream_id cr) (take (nat (cr_bytes_left cr)) data)
                     (cr_bytes_left cr \<le> 0) c) (\<lambda>(sent, c).
              if sent = q_h3err Q QUICHE_H3_ERR_DONE then Inr (None, c)
              else if sent = H3_BLOCKED Q then Inr (Some cr, c)
              else if sent < 0 then Inr (None, c)
              else let cr = cr\<lparr>cr_bytes_left := cr_bytes_left cr - sent\<rparr> in
                   Inr (if cr_bytes_left cr \<le> 0 then None else Some cr, c))
          else Inr (None, c)
      | None \<Rightarrow> Inr (None, c))"

definition flush_cached_one ::
    "'q quiche \<Rightarrow> freed_memory \<Rightarrow> cached_response \<Rightarrow> 'q qconn \<Rightarrow> (cached_response option \<times> 'q qconn) run" where
  "flush_cached_one Q F cr c =
     rbind (freed_headers F (cr_headers cr)) (\<lambda>hdrs.
     rbind (h3_send_response Q (cr_stream_id cr) hdrs (cr_bytes_left cr \<le> 0) c) (\<lambda>(r, c).
     rbind (read_conn (q_is_established Q) c) (\<lambda>established.
       if r = H3_BLOCKED Q \<and> established then Inr (Some cr, c)
       else if r < 0 then Inr (None, c)
       else send_cached_body Q cr c)))"

fun flush_cached ::
    "'q quiche \<Rightarrow> freed_memory \<Rightarrow> cached_response list \<Rightarrow> 'q qconn \<Rightarrow> (cached_response list \<times> 'q qconn) run" where
  "flush_cached Q F [] c = Inr ([], c)"
| "flush_cached Q F (cr # rest) c =
     rbind (flush_cached_one Q F cr c) (\<lambda>(kept, c).
     rbind (flush_cached Q F rest c) (\<lambda>(rest', c).
       Inr ((case kept of Some cr \<Rightarrow> [cr] | None \<Rightarrow> []) @ rest', c)))"

definition FlushCachedResponses :: "'q quiche \<Rightarrow> freed_memory \<Rightarrow> 'q qconn \<Rightarrow> 'q qconn run" where
  "FlushCachedResponses Q F c =
     rbind (flush_cached Q F (response_cache c) c) (\<lambda>(kept, c). Inr (c\<lparr>response_cache := kept\<rparr>))"

text \<open>
  One iteration of the loop over \<open>outgoing_streams_by_id_\<close>: whether it leaves the loop
  (\<open>break\<close>), whether the stream completed, and the stream object afterwards.
\<close>

definition flush_stream ::
    "'q quiche \<Rightarrow> outgoing_stream \<Rightarrow> 'q qconn \<Rightarrow> ((bool \<times> bool \<times> outgoing_stream) \<times> 'q qconn) run" where
  "flush_stream Q st c =
     (let send_offset = SendOffset st;
          remaining = to_i32 (int (length (out_Buffer st)) - send_offset)
      in if remaining \<le> 0 then
           rbind (h3_send_body Q (out_Id st) [] True c) (\<lambda>(r, c).
             if r < 0 then Inr ((True, False, st), c) else Inr ((False, True, st), c))
         else
           rbind (h3_send_body Q (out_Id st)
                    (take (nat remaining) (drop (nat send_offset) (out_Buffer st))) False c) (\<lambda>(r, c).
             if r < 0 then Inr ((True, False, st), c)
             else if r < remaining then
               Inr ((False, False, st\<lparr>SendOffset := SendOffset st + r\<rparr>), c)
             else let st = st\<lparr>out_Buffer := [], SendOffset := 0\<rparr> in
               rbind (h3_send_body Q (out_Id st) [] True c) (\<lambda>(r, c).
                 if r < 0 then Inr ((True, False, st), c) else Inr ((False, True, st), c))))"

text \<open>
  The loop, in iteration order: the entries with their updated streams and the completed
  ids. After a \<open>break\<close> the later entries are not touched.
\<close>

fun flush_streams ::
    "'q quiche \<Rightarrow> (u64, outgoing_stream) umap \<Rightarrow> 'q qconn \<Rightarrow>
     ((u64, outgoing_stream) umap \<times> u64 list \<times> 'q qconn) run" where
  "flush_streams Q [] c = Inr ([], [], c)"
| "flush_streams Q ((k, st) # rest) c =
     rbind (flush_stream Q st c) (\<lambda>((brk, completed, st), c).
       if brk then Inr ((k, st) # rest, [], c)
       else rbind (flush_streams Q rest c) (\<lambda>(rest', ids, c).
         Inr ((k, st) # rest', (if completed then [out_Id st] else []) @ ids, c)))"

definition FlushTransfers :: "'q quiche \<Rightarrow> 'q qconn \<Rightarrow> 'q qconn run" where
  "FlushTransfers Q c =
     rbind (flush_streams Q (outgoing_streams_by_id c) c) (\<lambda>(streams, completed_stream_ids, c).
       Inr (c\<lparr>outgoing_streams_by_id := fold um_erase completed_stream_ids streams\<rparr>))"

definition TickTimeout :: "'q quiche \<Rightarrow> 'q callbacks \<Rightarrow> 'q cst \<Rightarrow> 'q cst run" where
  "TickTimeout Q cb s =
     rbind (read_conn (q_is_closed Q) (cn s)) (\<lambda>is_closed.
       if is_closed then
         rbind (if \<not> timed_out (cn s) then on_timeout cb (AssignedId (cn s)) s else Inr s) (\<lambda>s.
           Inr (s\<lparr>cn := (cn s)\<lparr>timed_out := True\<rparr>\<rparr>))
       else if timer_set (cn s) then Inr s
       else
         rbind (read_conn (q_timeout_as_millis Q) (cn s)) (\<lambda>timeout_msec.
           if timeout_msec = 0 then
             rbind (call_conn (\<lambda>q. ((), q_on_timeout Q q)) (cn s)) (\<lambda>(_, c). Inr (s\<lparr>cn := c\<rparr>))
           else Inr (s\<lparr>cn := (cn s)\<lparr>timer_set := True\<rparr>\<rparr>)))"

text \<open>
  The sending loop of \<open>FlushEgress\<close>. The result says whether the loop ended with
  \<open>QUICHE_ERR_DONE\<close> (otherwise the function returns from inside it), the flag \<open>sent\<close> and
  the buffer the caller's pointer holds at the end.
\<close>

fun egress_loop ::
    "nat \<Rightarrow> 'q quiche \<Rightarrow> nat option \<Rightarrow> bool \<Rightarrow> 'q cst \<Rightarrow> ((bool \<times> bool \<times> nat) \<times> 'q cst) run" where
  "egress_loop 0 Q buffer sent s = Inl Diverges"
| "egress_loop (Suc n) Q buffer sent s =
     (let (b, net1) = (case buffer of Some b \<Rightarrow> (b, net (hs s)) | None \<Rightarrow> sock_Allocate (net (hs s)))
      in rbind (call_conn (q_conn_send Q MAX_DATAGRAM_SEND_SIZE) (cn s)) (\<lambda>((written, data, to, to_len), c).
        let s = s\<lparr>cn := c, hs := (hs s)\<lparr>net := net1\<rparr>\<rparr>
        in if written = q_err Q QUICHE_ERR_DONE then Inr ((True, sent, b), s)
           else if written < 0 then Inr ((False, sent, b), s)
           else
             rbind (sockaddr_to_endpoint to to_len) (\<lambda>dest_endpoint.
               let (b', net2) = sock_Allocate (Send b dest_endpoint (fill_buffer b data written net1))
               in egress_loop n Q (Some b') True (s\<lparr>hs := (hs s)\<lparr>net := net2\<rparr>\<rparr>))))"

definition FlushEgress ::
    "nat \<Rightarrow> 'q quiche \<Rightarrow> freed_memory \<Rightarrow> 'q callbacks \<Rightarrow> nat option \<Rightarrow> 'q cst \<Rightarrow> ((bool \<times> nat) \<times> 'q cst) run" where
  "FlushEgress n Q F cb buffer s =
     rbind (FlushCachedResponses Q F (cn s)) (\<lambda>c.
     rbind (FlushTransfers Q c) (\<lambda>c.
     rbind (egress_loop n Q buffer False (s\<lparr>cn := c\<rparr>)) (\<lambda>((finished, sent, b), s).
       if finished then rbind (TickTimeout Q cb s) (\<lambda>s. Inr ((sent, b), s))
       else Inr ((sent, b), s))))"

text \<open>The overload without a parameter: a local null pointer, freed at the end.\<close>

definition FlushEgress_local ::
    "nat \<Rightarrow> 'q quiche \<Rightarrow> freed_memory \<Rightarrow> 'q callbacks \<Rightarrow> 'q cst \<Rightarrow> (bool \<times> 'q cst) run" where
  "FlushEgress_local n Q F cb s =
     rbind (FlushEgress n Q F cb None s) (\<lambda>((sent, b), s).
       Inr (sent, s\<lparr>hs := (hs s)\<lparr>net := sock_Free b (net (hs s))\<rparr>\<rparr>))"

text \<open>The handler of \<open>quiche_timer_\<close>.\<close>

definition OnQuicheTimer ::
    "nat \<Rightarrow> 'q quiche \<Rightarrow> freed_memory \<Rightarrow> 'q callbacks \<Rightarrow> bool \<Rightarrow> 'q cst \<Rightarrow> 'q cst run" where
  "OnQuicheTimer n Q F cb ec s =
     (let s = s\<lparr>cn := (cn s)\<lparr>timer_set := False\<rparr>\<rparr>
      in if ec \<or> timed_out (cn s) then Inr s
         else rbind (call_conn (\<lambda>q. ((), q_on_timeout Q q)) (cn s)) (\<lambda>(_, c).
              rbind (FlushEgress_local n Q F cb (s\<lparr>cn := c\<rparr>)) (\<lambda>(_, s). Inr s)))"

section \<open>Sending\<close>

text \<open>
  \<open>vdata\<close> holds at least \<open>bytes\<close> bytes when \<open>bytes\<close> is positive. Data that quiche does not
  take is queued on the outgoing stream; a refused FIN is only reported.
\<close>

definition queue_body :: "u64 \<Rightarrow> bytes \<Rightarrow> 'q qconn \<Rightarrow> 'q qconn" where
  "queue_body sid rest c =
     (case GetOutgoingStream sid True c of
        (Some st, c) \<Rightarrow> c\<lparr>outgoing_streams_by_id :=
            um_put sid (st\<lparr>SendOffset := 0, out_Buffer := rest\<rparr>) (outgoing_streams_by_id c)\<rparr>
      | (None, c) \<Rightarrow> c)"

definition SendBody ::
    "nat \<Rightarrow> 'q quiche \<Rightarrow> freed_memory \<Rightarrow> 'q callbacks \<Rightarrow> u64 \<Rightarrow> bytes \<Rightarrow> int \<Rightarrow> 'q cst \<Rightarrow> (bool \<times> 'q cst) run" where
  "SendBody n Q F cb sid vdata bytes s =
     (let flush = (\<lambda>s. rbind (FlushEgress_local n Q F cb s) (\<lambda>(_, s). Inr (True, s)))
      in if bytes \<le> 0 then flush s
         else
           rbind (h3_send_body Q sid (take (nat bytes) vdata) False (cn s)) (\<lambda>(rc, c).
             let rc = (if rc < 0 then 0 else rc)
             in if rc < bytes then
                  flush (s\<lparr>cn := queue_body sid (drop (nat rc) (take (nat bytes) vdata)) c\<rparr>)
                else
                  rbind (h3_send_body Q sid [] True c) (\<lambda>(rc, c).
                    if rc < 0 then Inr (False, s\<lparr>cn := c\<rparr>) else flush (s\<lparr>cn := c\<rparr>))))"

text \<open>
  \<open>SendRequest\<close>: one element of \<open>env\<close> per pause between attempts, what the other threads
  do to the connection while the lock is released. When \<open>env\<close> is used up the call has not
  returned yet (\<open>Diverges\<close>).
\<close>

definition SendRequest_attempt ::
    "nat \<Rightarrow> 'q quiche \<Rightarrow> freed_memory \<Rightarrow> 'q callbacks \<Rightarrow> header list \<Rightarrow> bytes \<Rightarrow> int \<Rightarrow> 'q cst \<Rightarrow>
     (int option \<times> 'q cst) run" where
  "SendRequest_attempt n Q F cb headers data bytes s =
     rbind (h3_send_request Q headers (bytes \<le> 0) (cn s)) (\<lambda>(stream_id, c).
     rbind (read_conn (q_is_established Q) c) (\<lambda>established.
       if (stream_id = H3_BLOCKED Q \<or>
           stream_id = q_h3err Q QUICHE_H3_TRANSPORT_ERR_STREAM_LIMIT) \<and> established
       then Inr (None, s\<lparr>cn := c\<rparr>)
       else if stream_id < 0 then Inr (Some (- 1), s\<lparr>cn := c\<rparr>)
       else rbind (SendBody n Q F cb (word_of_int stream_id) data bytes (s\<lparr>cn := c\<rparr>)) (\<lambda>(_, s).
         Inr (Some stream_id, s))))"

fun SendRequest ::
    "('q cst \<Rightarrow> 'q cst) list \<Rightarrow> nat \<Rightarrow> 'q quiche \<Rightarrow> freed_memory \<Rightarrow> 'q callbacks \<Rightarrow> header list \<Rightarrow> bytes \<Rightarrow> int \<Rightarrow>
     'q cst \<Rightarrow> (int \<times> 'q cst) run" where
  "SendRequest env n Q F cb headers data bytes s =
     (if timed_out (cn s) then Inr (- 1, s)
      else rbind (SendRequest_attempt n Q F cb headers data bytes s) (\<lambda>(r, s).
        case r of Some i \<Rightarrow> Inr (i, s)
        | None \<Rightarrow> (case env of [] \<Rightarrow> Inl Diverges
                 | e # env' \<Rightarrow> SendRequest env' n Q F cb headers data bytes (e s))))"

declare SendRequest.simps [simp del]

definition SendResponse ::
    "nat \<Rightarrow> 'q quiche \<Rightarrow> freed_memory \<Rightarrow> 'q callbacks \<Rightarrow> u64 \<Rightarrow> header list \<Rightarrow> bytes option \<Rightarrow> int \<Rightarrow> 'q cst \<Rightarrow>
     (bool \<times> 'q cst) run" where
  "SendResponse n Q F cb sid headers data bytes s =
     (if timed_out (cn s) then Inr (False, s)
      else
        rbind (h3_send_response Q sid headers (bytes \<le> 0) (cn s)) (\<lambda>(r, c).
        rbind (read_conn (q_is_established Q) c) (\<lambda>established.
          if r = H3_BLOCKED Q \<and> established then
            Inr (False, s\<lparr>cn := c\<lparr>response_cache := response_cache c @
              [\<lparr>cr_stream_id = sid, cr_headers = headers,
                cr_data = (if bytes > 0 then map_option (take (nat bytes)) data else None),
                cr_bytes_left = bytes\<rparr>]\<rparr>\<rparr>)
          else if r < 0 then Inr (False, s\<lparr>cn := c\<rparr>)
          else (case data of
              Some d \<Rightarrow> SendBody n Q F cb sid d bytes (s\<lparr>cn := c\<rparr>)
            | None \<Rightarrow> if bytes > 0 then Inl NullDeref
                      else SendBody n Q F cb sid [] bytes (s\<lparr>cn := c\<rparr>)))))"

section \<open>Receiving\<close>

definition body_buf_size :: nat where "body_buf_size = 1400 * 2"

text \<open>
  The inner loop of the DATA event: \<open>stream\<close> is the shared object, read until quiche says
  DONE or returns 0; an error is logged and the call repeated.
\<close>

fun recv_body_loop ::
    "nat \<Rightarrow> 'q quiche \<Rightarrow> u64 \<Rightarrow> incoming_stream \<Rightarrow> 'q qconn \<Rightarrow> (incoming_stream \<times> 'q qconn) run" where
  "recv_body_loop 0 Q sid stream c = Inl Diverges"
| "recv_body_loop (Suc n) Q sid stream c =
     rbind (h3_recv_body Q sid body_buf_size c) (\<lambda>((len, buffer), c).
       if len = q_err Q QUICHE_ERR_DONE \<or> len = 0 then Inr (stream, c)
       else if len > 0 then recv_body_loop n Q sid (OnData (take (nat len) buffer) stream) c
       else recv_body_loop n Q sid stream c)"

definition put_incoming :: "u64 \<Rightarrow> incoming_stream \<Rightarrow> 'q qconn \<Rightarrow> 'q qconn" where
  "put_incoming sid st c = c\<lparr>incoming_streams_by_id := um_put sid st (incoming_streams_by_id c)\<rparr>"

definition goaway_reason :: string where "goaway_reason = ''Received GOAWAY''"

fun handle_event ::
    "nat \<Rightarrow> 'q quiche \<Rightarrow> 'q callbacks \<Rightarrow> u64 \<Rightarrow> h3_event \<Rightarrow> 'q cst \<Rightarrow> 'q cst run" where
  "handle_event n Q cb sid (EvHeaders hdrs) s =
     (case GetIncomingStream sid True (cn s) of
        (Some stream, c) \<Rightarrow>
          Inr (s\<lparr>cn := put_incoming sid (fold (\<lambda>(name, val). OnHeader name val) hdrs stream) c\<rparr>)
      | (None, c) \<Rightarrow> Inr (s\<lparr>cn := c\<rparr>))"
| "handle_event n Q cb sid EvData s =
     (case GetIncomingStream sid True (cn s) of
        (Some stream, c) \<Rightarrow>
          rbind (recv_body_loop n Q sid stream c) (\<lambda>(stream, c).
            Inr (s\<lparr>cn := put_incoming sid stream c\<rparr>))
      | (None, c) \<Rightarrow> Inr (s\<lparr>cn := c\<rparr>))"
| "handle_event n Q cb sid EvFinished s =
     (case um_find sid (incoming_streams_by_id (cn s)) of
        None \<Rightarrow> Inr s
      | Some stream \<Rightarrow>
          let c = (cn s)\<lparr>incoming_streams_by_id := um_erase sid (incoming_streams_by_id (cn s))\<rparr>;
              event = \<lparr>ev_Type = DataEvent, ev_PeerEndpoint = peer_endpoint c,
                       ev_ConnectionAssignedId = AssignedId c, ev_Stream = Some stream\<rparr>
          in rbind (on_data cb event (s\<lparr>cn := c\<rparr>)) (\<lambda>s.
               if \<not> IsServer (cn s) then
                 rbind (DestroyStream Q sid (cn s)) (\<lambda>c. Inr (s\<lparr>cn := c\<rparr>))
               else Inr s))"
| "handle_event n Q cb sid EvReset s =
     rbind (DestroyStream Q sid (cn s)) (\<lambda>c. Inr (s\<lparr>cn := c\<rparr>))"
| "handle_event n Q cb sid EvPriorityUpdate s = Inr s"
| "handle_event n Q cb sid EvGoAway s =
     rbind (conn_close Q goaway_reason (cn s)) (\<lambda>c. Inr (s\<lparr>cn := c\<rparr>))"
| "handle_event n Q cb sid EvOther s = Inr s"

fun ProcessH3Events :: "nat \<Rightarrow> 'q quiche \<Rightarrow> 'q callbacks \<Rightarrow> 'q cst \<Rightarrow> 'q cst run" where
  "ProcessH3Events 0 Q cb s = Inl Diverges"
| "ProcessH3Events (Suc n) Q cb s =
     rbind (call_h3 (q_h3_poll Q) (cn s)) (\<lambda>((stream_id, ev), c).
       let s = s\<lparr>cn := c\<rparr>
       in if stream_id = q_err Q QUICHE_ERR_DONE \<or> stream_id < 0 then Inr s
          else rbind (handle_event n Q cb (word_of_int stream_id) ev s) (ProcessH3Events n Q cb))"

section \<open>Life cycle\<close>

definition Accept ::
    "'q quiche \<Rightarrow> endpoint \<Rightarrow> conn_id \<Rightarrow> conn_id \<Rightarrow> 'q cst \<Rightarrow> bool \<times> 'q cst" where
  "Accept Q client_endpoint dcid_arg odcid s =
     (let c = (cn s)\<lparr>conn := q_accept Q (cid_key dcid_arg) (cid_key odcid)
                 (to_sockaddr (local_endpoint (hs s))) (to_sockaddr client_endpoint)\<rparr>
      in case conn c of
           None \<Rightarrow> (False, s\<lparr>cn := c\<rparr>)
         | Some _ \<Rightarrow> (True, s\<lparr>cn := c\<lparr>conns_made := Suc (conns_made c)\<rparr>\<rparr>))"

definition QUIC_TLS_CNAME :: string where "QUIC_TLS_CNAME = ''catid.io''"

text \<open>\<open>scid\<close> is the random source connection id drawn by this call.\<close>

definition Connect :: "'q quiche \<Rightarrow> conn_id \<Rightarrow> endpoint \<Rightarrow> 'q cst \<Rightarrow> bool \<times> 'q cst" where
  "Connect Q scid server_endpoint s =
     (let c = (cn s)\<lparr>peer_endpoint := server_endpoint\<rparr>;
          c = c\<lparr>conn := q_connect Q QUIC_TLS_CNAME (cid_key scid)
                 (to_sockaddr (local_endpoint (hs s))) (to_sockaddr server_endpoint)\<rparr>
      in case conn c of
           None \<Rightarrow> (False, s\<lparr>cn := c\<rparr>)
         | Some _ \<Rightarrow> (True, s\<lparr>cn := c\<lparr>connection_timer := Some server_endpoint,
                                    conns_made := Suc (conns_made c)\<rparr>\<rparr>))"

text \<open>The handler of \<open>connection_timer_\<close>; \<open>scid\<close> is drawn if it retries.\<close>

definition OnConnectionTimer :: "'q quiche \<Rightarrow> conn_id \<Rightarrow> bool \<Rightarrow> 'q cst \<Rightarrow> 'q cst run" where
  "OnConnectionTimer Q scid ec s =
     (case connection_timer (cn s) of
        None \<Rightarrow> Inr s
      | Some server_endpoint \<Rightarrow>
          let s = s\<lparr>cn := (cn s)\<lparr>connection_timer := None\<rparr>\<rparr>
          in if ec then Inr s
             else rbind (read_conn (q_is_established Q) (cn s)) (\<lambda>established.
               if established then Inr s
               else Inr (snd (Connect Q scid server_endpoint s))))"

definition Close :: "'q quiche \<Rightarrow> string \<Rightarrow> 'q qconn \<Rightarrow> 'q qconn run" where
  "Close Q reason c =
     (if timed_out c then Inr c
      else if http3 c then
        rbind (h3_send_goaway Q (highest_processed_stream_id c) c) (\<lambda>(r, c).
          if r \<ge> 0 then Inr c
          else conn_close Q reason (c\<lparr>goaway_sent := True\<rparr>))
      else conn_close Q reason c)"

definition cert_reason :: string where "cert_reason = ''Peer certificate does not match''"

text \<open>\<open>memcmp\<close> runs over the peer's length, which equals \<open>bytes\<close> by then.\<close>

definition ComparePeerCertificate :: "'q quiche \<Rightarrow> bytes \<Rightarrow> 'q qconn \<Rightarrow> (bool \<times> 'q qconn) run" where
  "ComparePeerCertificate Q cert c =
     rbind (read_conn (q_peer_cert Q) c) (\<lambda>peer_cert.
       if to_i32 (int (length peer_cert)) \<noteq> to_i32 (int (length cert)) \<or>
          memcmp peer_cert cert (length peer_cert) \<noteq> 0
       then rbind (conn_close Q cert_reason c) (\<lambda>c. Inr (False, c))
       else Inr (True, c\<lparr>connected := True\<rparr>))"

text \<open>
  \<open>OnDatagram\<close> in two parts: what happens on an established connection (\<open>False\<close>: the
  function returns there), and its end, the check for a closed connection and the flush.
\<close>

definition datagram_established ::
    "nat \<Rightarrow> 'q quiche \<Rightarrow> 'q callbacks \<Rightarrow> 'q cst \<Rightarrow> (bool \<times> 'q cst) run" where
  "datagram_established n Q cb s =
     (if http3 (cn s) then rbind (ProcessH3Events n Q cb s) (\<lambda>s. Inr (True, s))
      else rbind (call_conn (q_h3_conn_new Q) (cn s)) (\<lambda>(ok, c).
        if \<not> ok then Inr (False, s\<lparr>cn := c\<rparr>)
        else rbind (on_connect cb (AssignedId c) (peer_endpoint c) (s\<lparr>cn := c\<lparr>http3 := True\<rparr>\<rparr>)) (\<lambda>s.
             rbind (ProcessH3Events n Q cb s) (\<lambda>s. Inr (True, s)))))"

definition datagram_end ::
    "nat \<Rightarrow> 'q quiche \<Rightarrow> freed_memory \<Rightarrow> 'q callbacks \<Rightarrow> 'q cst \<Rightarrow> 'q cst run" where
  "datagram_end n Q F cb s =
     rbind (read_conn (q_is_closed Q) (cn s)) (\<lambda>is_closed.
       if \<not> timed_out (cn s) \<and> is_closed then
         rbind (on_timeout cb (AssignedId (cn s)) s) (\<lambda>s.
           Inr (s\<lparr>cn := (cn s)\<lparr>timed_out := True\<rparr>\<rparr>))
       else rbind (FlushEgress_local n Q F cb s) (\<lambda>(_, s). Inr s))"

definition OnDatagram ::
    "nat \<Rightarrow> 'q quiche \<Rightarrow> freed_memory \<Rightarrow> 'q callbacks \<Rightarrow> bytes \<Rightarrow> endpoint \<Rightarrow> 'q cst \<Rightarrow> 'q cst run" where
  "OnDatagram n Q F cb data peer s =
     (let s = s\<lparr>cn := (cn s)\<lparr>peer_endpoint := peer\<rparr>\<rparr>
      in rbind (call_conn (q_conn_recv Q data (to_sockaddr peer) (to_sockaddr (local_endpoint (hs s)))) (cn s))
           (\<lambda>(done, c).
         let s = s\<lparr>cn := c\<rparr>
         in if done < 0 then Inr s
            else rbind (read_conn (q_is_established Q) (cn s)) (\<lambda>established.
                 rbind (if established then datagram_established n Q cb s else Inr (True, s)) (\<lambda>(continue, s).
                   if continue then datagram_end n Q F cb s else Inr s))))"

text \<open>The destructor frees the object behind \<open>conn_\<close>, if any: the number of objects freed.\<close>

definition conns_freed_by_destructor :: "'q qconn \<Rightarrow> nat" where
  "conns_freed_by_destructor c = (case conn c of None \<Rightarrow> 0 | Some _ \<Rightarrow> 1)"

end
