(* ===== verification/QS_Script.thy ===== *)
theory QS_Script
  imports QS_Conn
begin

text \<open>
  A concrete library for the witnesses: a quiche whose answers are read from a script. It
  instantiates the parameter of the theorems about connections and shows that their
  hypotheses can hold; no theorem is about it.
\<close>

record script =
  sc_established :: bool
  sc_closed :: bool
  sc_cert :: bytes
  sc_send_body :: "int list"
  sc_recv_body :: "(int \<times> bytes) list"
  sc_poll :: "(int \<times> h3_event) list"
  sc_packets :: "bytes list"
  sc_response :: "int list"
  sc_goaway :: int

definition idle :: script where
  "idle = \<lparr>sc_established = True, sc_closed = False, sc_cert = [], sc_send_body = [], sc_recv_body = [],
           sc_poll = [], sc_packets = [], sc_response = [], sc_goaway = 0\<rparr>"

definition script_peer :: endpoint where
  "script_peer = \<lparr>address = V4 0x7F000001, port = 4433\<rparr>"

fun next_answer :: "'a \<Rightarrow> 'a list \<Rightarrow> 'a \<times> 'a list" where
  "next_answer d [] = (d, [])"
| "next_answer d (x # xs) = (x, xs)"

definition scripted :: "script quiche" where
  "scripted =
     \<lparr>q_err = (\<lambda>e. if e = QUICHE_ERR_DONE then - 1 else - 2),
      q_h3err = (\<lambda>e. if e = QUICHE_H3_ERR_DONE then - 1 else if e = QUICHE_H3_ERR_STREAM_BLOCKED then - 13 else - 3),
      q_accept = (\<lambda>d1 d2 l p. Some idle),
      q_connect = (\<lambda>h s l p. Some idle),
      q_conn_recv = (\<lambda>data p l q. (int (length data), q)),
      q_conn_send = (\<lambda>n q. case sc_packets q of
          [] \<Rightarrow> ((- 1, [], to_sockaddr script_peer), q)
        | p # ps \<Rightarrow> ((int (length p), p, to_sockaddr script_peer), q\<lparr>sc_packets := ps\<rparr>)),
      q_is_established = sc_established,
      q_is_closed = sc_closed,
      q_timeout_as_millis = (\<lambda>q. 100),
      q_on_timeout = (\<lambda>q. q\<lparr>sc_closed := True\<rparr>),
      q_close = (\<lambda>r q. q\<lparr>sc_closed := True\<rparr>),
      q_stream_shutdown = (\<lambda>i d q. q),
      q_peer_cert = sc_cert,
      q_h3_conn_new = (\<lambda>q. (True, q)),
      q_h3_poll = (\<lambda>q. case next_answer (- 1, EvOther) (sc_poll q) of (x, xs) \<Rightarrow> (x, q\<lparr>sc_poll := xs\<rparr>)),
      q_h3_recv_body = (\<lambda>i n q. case next_answer (- 1, []) (sc_recv_body q) of (x, xs) \<Rightarrow> (x, q\<lparr>sc_recv_body := xs\<rparr>)),
      q_h3_send_request = (\<lambda>h f q. (0, q)),
      q_h3_send_response = (\<lambda>i h f q. case next_answer 0 (sc_response q) of (x, xs) \<Rightarrow> (x, q\<lparr>sc_response := xs\<rparr>)),
      q_h3_send_body = (\<lambda>i d f q. case next_answer 0 (sc_send_body q) of (x, xs) \<Rightarrow> (x, q\<lparr>sc_send_body := xs\<rparr>)),
      q_h3_send_goaway = (\<lambda>i q. (sc_goaway q, q))\<rparr>"

lemma scripted_simps [simp]:
  "q_err scripted QUICHE_ERR_DONE = - 1" "q_h3err scripted QUICHE_H3_ERR_DONE = - 1"
  "q_h3err scripted QUICHE_H3_ERR_STREAM_BLOCKED = - 13"
  "q_h3err scripted QUICHE_H3_TRANSPORT_ERR_STREAM_LIMIT = - 3"
  "q_is_established scripted = sc_established" "q_is_closed scripted = sc_closed" "q_peer_cert scripted = sc_cert"
  "q_timeout_as_millis scripted = (\<lambda>q. 100)" "q_on_timeout scripted = (\<lambda>q. q\<lparr>sc_closed := True\<rparr>)"
  "q_close scripted = (\<lambda>r q. q\<lparr>sc_closed := True\<rparr>)" "q_stream_shutdown scripted = (\<lambda>i d q. q)"
  "q_conn_recv scripted = (\<lambda>data p l q. (int (length data), q))"
  "q_h3_conn_new scripted = (\<lambda>q. (True, q))" "q_h3_send_request scripted = (\<lambda>h f q. (0, q))"
  "q_h3_send_goaway scripted = (\<lambda>i q. (sc_goaway q, q))"
  "q_accept scripted = (\<lambda>d1 d2 l p. Some idle)" "q_connect scripted = (\<lambda>h s l p. Some idle)"
  "q_conn_send scripted n q = (case sc_packets q of
          [] \<Rightarrow> ((- 1, [], to_sockaddr script_peer), q)
        | p # ps \<Rightarrow> ((int (length p), p, to_sockaddr script_peer), q\<lparr>sc_packets := ps\<rparr>))"
  "q_h3_poll scripted q = (case next_answer (- 1, EvOther) (sc_poll q) of (x, xs) \<Rightarrow> (x, q\<lparr>sc_poll := xs\<rparr>))"
  "q_h3_recv_body scripted i m q =
     (case next_answer (- 1, []) (sc_recv_body q) of (x, xs) \<Rightarrow> (x, q\<lparr>sc_recv_body := xs\<rparr>))"
  "q_h3_send_response scripted i h f q =
     (case next_answer 0 (sc_response q) of (x, xs) \<Rightarrow> (x, q\<lparr>sc_response := xs\<rparr>))"
  "q_h3_send_body scripted i d f q =
     (case next_answer 0 (sc_send_body q) of (x, xs) \<Rightarrow> (x, q\<lparr>sc_send_body := xs\<rparr>))"
  by (simp_all add: scripted_def)

text \<open>A connection on the script \<open>q\<close> with its HTTP/3 object, and the memory that keeps its contents.\<close>

definition script_conn :: "bool \<Rightarrow> script \<Rightarrow> script qconn" where
  "script_conn is_server q =
     (Initialize is_server 1 \<lparr>Id_bytes = replicate 16 7, Length = 16\<rparr>)\<lparr>conn := Some q, http3 := True\<rparr>"

definition kept_memory :: freed_memory where
  "kept_memory = \<lparr>freed_headers = Inr, freed_assigned_id = Inr\<rparr>"

lemmas script_defs = script_conn_def Initialize_def idle_def

lemma kept_memory_simps [simp]:
  "freed_headers kept_memory hdrs = Inr hdrs" "freed_assigned_id kept_memory i = Inr i"
  by (simp_all add: kept_memory_def)

definition script_host :: host where
  "script_host = \<lparr>net = new_qsocket, local_endpoint = script_peer, mailbox = new_mailbox, closed = False\<rparr>"

end
