(* ===== verification/QS_Transfer.thy ===== *)
theory QS_Transfer
  imports QS_Script
begin

text \<open>
  Outgoing bodies. \<open>accepted k calls\<close> is the body data quiche took for stream \<open>k\<close>
  (\<open>quiche_h3_send_body\<close> returns how many bytes it took, or a negative error and nothing),
  and \<open>pending k m\<close> what waits on the stream's queue. The main results: a pass of
  \<open>FlushTransfers\<close> moves bytes from \<open>pending\<close> to \<open>accepted\<close> without losing, repeating or
  reordering any, \<open>SendBody\<close> accounts for the whole body, and a stream leaves the queue
  only after its FIN was taken, with everything sent.
\<close>

section \<open>What was accepted, what waits\<close>

fun accepted_call :: "u64 \<Rightarrow> qcall \<Rightarrow> bytes" where
  "accepted_call k (CallBody sid data fin r) = (if sid = k \<and> 0 \<le> r then take (nat r) data else [])"
| "accepted_call k _ = []"

definition accepted :: "u64 \<Rightarrow> qcall list \<Rightarrow> bytes" where
  "accepted k cs = concat (map (accepted_call k) cs)"

lemma accepted_append [simp]: "accepted k (xs @ ys) = accepted k xs @ accepted k ys"
  by (simp add: accepted_def)

lemma accepted_Cons [simp]:
  "accepted k (x # xs) = accepted_call k x @ accepted k xs" "accepted k [] = []"
  by (simp_all add: accepted_def)

definition fin_taken :: "u64 \<Rightarrow> qcall list \<Rightarrow> bool" where
  "fin_taken k cs \<longleftrightarrow> (\<exists>data r. CallBody k data True r \<in> set cs \<and> 0 \<le> r)"

definition unsent :: "outgoing_stream \<Rightarrow> bytes" where
  "unsent st = drop (nat (SendOffset st)) (out_Buffer st)"

definition pending :: "u64 \<Rightarrow> (u64, outgoing_stream) umap \<Rightarrow> bytes" where
  "pending k m = (case um_find k m of Some st \<Rightarrow> unsent st | None \<Rightarrow> [])"

lemma pending_Nil [simp]: "pending k [] = []"
  by (simp add: pending_def um_find_def)

lemma pending_Cons [simp]:
  "pending k ((k', st) # m) = (if k = k' then unsent st else pending k m)"
  by (simp add: pending_def um_find_def)

lemma pending_not_in: "k \<notin> fst ` set m \<Longrightarrow> pending k m = []"
  by (induction m) auto

section \<open>Well-formed queues\<close>

definition ostream_ok :: "u64 \<Rightarrow> outgoing_stream \<Rightarrow> bool" where
  "ostream_ok k st \<longleftrightarrow> out_Id st = k \<and> 0 \<le> SendOffset st \<and>
     SendOffset st \<le> int (length (out_Buffer st)) \<and> length (out_Buffer st) < 2 ^ 31"

definition outgoing_ok :: "(u64, outgoing_stream) umap \<Rightarrow> bool" where
  "outgoing_ok m \<longleftrightarrow> um_inv m \<and> (\<forall>(k, st) \<in> set m. ostream_ok k st)"

lemma outgoing_ok_Nil [simp]: "outgoing_ok []"
  by (simp add: outgoing_ok_def um_inv_def)

lemma outgoing_ok_Cons [simp]:
  "outgoing_ok ((k, st) # m) \<longleftrightarrow> ostream_ok k st \<and> k \<notin> fst ` set m \<and> outgoing_ok m"
  by (auto simp: outgoing_ok_def um_inv_def)

lemma remaining_eq:
  "ostream_ok k st \<Longrightarrow> to_i32 (int (length (out_Buffer st)) - SendOffset st) = int (length (unsent st))"
  by (subst to_i32_id) (auto simp: ostream_ok_def unsent_def)

text \<open>What a flush may change of a connection: the quiche state and the record of calls.\<close>

definition only_calls :: "'q qconn \<Rightarrow> qcall list \<Rightarrow> 'q qconn \<Rightarrow> bool" where
  "only_calls c cs c' \<longleftrightarrow> (\<exists>q. c' = c\<lparr>conn := q, calls := calls c @ cs\<rparr>)"

lemma only_calls_refl [simp]: "only_calls c [] c"
  unfolding only_calls_def by (intro exI [of _ "conn c"]) simp

lemma only_calls_trans: "only_calls c xs c1 \<Longrightarrow> only_calls c1 ys c2 \<Longrightarrow> only_calls c (xs @ ys) c2"
  by (auto simp: only_calls_def)

lemma only_calls_frame:
  assumes "only_calls c cs c'"
  shows "calls c' = calls c @ cs"
    and "outgoing_streams_by_id c' = outgoing_streams_by_id c"
    and "incoming_streams_by_id c' = incoming_streams_by_id c"
    and "response_cache c' = response_cache c"
    and "http3 c' = http3 c" and "timed_out c' = timed_out c" and "timer_set c' = timer_set c"
    and "connected c' = connected c" and "AssignedId c' = AssignedId c" and "IsServer c' = IsServer c"
    and "goaway_sent c' = goaway_sent c" and "peer_endpoint c' = peer_endpoint c"
    and "dcid c' = dcid c" and "conns_made c' = conns_made c"
    and "connection_timer c' = connection_timer c"
    and "highest_processed_stream_id c' = highest_processed_stream_id c"
  using assms by (auto simp: only_calls_def)

lemma h3_send_body_only_calls:
  "h3_send_body Q sid data fin c = Inr (r, c') \<Longrightarrow> only_calls c [CallBody sid data fin r] c'"
  by (elim h3_send_body_cases) (auto simp: only_calls_def)

lemma h3_send_response_only_calls:
  "h3_send_response Q sid hdrs fin c = Inr (r, c') \<Longrightarrow> only_calls c [CallResponse sid hdrs fin r] c'"
  by (elim h3_send_response_cases) (auto simp: only_calls_def)

section \<open>One stream of one pass\<close>

text \<open>The result of an iteration, with the calls \<open>cs\<close> it made.\<close>

lemma flush_stream_spec:
  assumes "flush_stream Q st c = Inr ((brk, completed, st'), c')" and "ostream_ok k st"
  shows "\<exists>cs. only_calls c cs c' \<and> ostream_ok k st' \<and>
     accepted k cs @ unsent st' = unsent st \<and> (\<forall>k'. k' \<noteq> k \<longrightarrow> accepted k' cs = [] \<and> \<not> fin_taken k' cs) \<and>
     (completed \<longrightarrow> \<not> brk \<and> unsent st' = [] \<and> fin_taken k cs) \<and>
     (fin_taken k cs \<longrightarrow> completed) \<and> (brk \<longrightarrow> (\<exists>x \<in> set cs. \<exists>d f r. x = CallBody k d f r \<and> r < 0))"
proof -
  let ?rem = "int (length (unsent st))" and ?u = "unsent st"
  have rem: "to_i32 (int (length (out_Buffer st)) - SendOffset st) = ?rem"
    and id: "out_Id st = k" and d: "drop (nat (SendOffset st)) (out_Buffer st) = ?u"
    using assms(2) by (simp_all add: remaining_eq) (simp_all add: ostream_ok_def unsent_def)
  show ?thesis
  proof (cases "?u = []")
    case True
    with assms(1) rem id obtain r c1 where
        s: "h3_send_body Q k [] True c = Inr (r, c1)" and "c' = c1" "st' = st"
        "brk = (r < 0)" "completed = (\<not> r < 0)"
      by (auto simp: flush_stream_def Let_def rbind_eq_Inr split: if_splits)
    with True assms(2) h3_send_body_only_calls [OF s] show ?thesis
      by (intro exI [of _ "[CallBody k [] True r]"]) (auto simp: fin_taken_def)
  next
    case False
    then have pos: "\<not> ?rem \<le> 0" by simp
    have "flush_stream Q st c = rbind (h3_send_body Q k ?u False c) (\<lambda>(r, c1).
         if r < 0 then Inr ((True, False, st), c1)
         else if r < ?rem then Inr ((False, False, st\<lparr>SendOffset := SendOffset st + r\<rparr>), c1)
         else rbind (h3_send_body Q k [] True c1) (\<lambda>(r, c).
           if r < 0 then Inr ((True, False, st\<lparr>out_Buffer := [], SendOffset := 0\<rparr>), c)
           else Inr ((False, True, st\<lparr>out_Buffer := [], SendOffset := 0\<rparr>), c)))"
      using pos id d rem
      by (auto simp: flush_stream_def Let_def intro!: arg_cong [where f = "rbind _"] ext split: prod.split)
    with assms(1) obtain r c1 where
        s: "h3_send_body Q k ?u False c = Inr (r, c1)"
      and rest: "(if r < 0 then Inr ((True, False, st), c1)
         else if r < ?rem then Inr ((False, False, st\<lparr>SendOffset := SendOffset st + r\<rparr>), c1)
         else rbind (h3_send_body Q k [] True c1) (\<lambda>(r, c).
           if r < 0 then Inr ((True, False, st\<lparr>out_Buffer := [], SendOffset := 0\<rparr>), c)
           else Inr ((False, True, st\<lparr>out_Buffer := [], SendOffset := 0\<rparr>), c))) =
         Inr ((brk, completed, st'), c')"
      by (auto simp: rbind_eq_Inr)
    note oc = h3_send_body_only_calls [OF s]
    consider "r < 0" | "0 \<le> r" "r < ?rem" | "?rem \<le> r" by linarith
    then show ?thesis
    proof cases
      case 1
      with rest oc assms(2) show ?thesis
        by (intro exI [of _ "[CallBody k ?u False r]"]) (auto simp: fin_taken_def)
    next
      case 2
      with rest have st': "st' = st\<lparr>SendOffset := SendOffset st + r\<rparr>" "c' = c1" "\<not> brk" "\<not> completed"
        by simp_all
      have off: "nat (SendOffset st + r) = nat r + nat (SendOffset st)"
        using 2 assms(2) by (simp add: ostream_ok_def nat_add_distrib)
      have "unsent st' = drop (nat r) ?u"
        using st' off by (simp add: unsent_def)
      moreover have "ostream_ok k st'"
        using st' 2 assms(2) by (auto simp: ostream_ok_def unsent_def)
      ultimately show ?thesis using 2 st' oc
        by (intro exI [of _ "[CallBody k ?u False r]"]) (auto simp: fin_taken_def)
    next
      case 3
      let ?st = "st\<lparr>out_Buffer := [], SendOffset := 0\<rparr>"
      from 3 rest obtain r2 c2 where s2: "h3_send_body Q k [] True c1 = Inr (r2, c2)"
        and res: "c' = c2" "st' = ?st" "brk = (r2 < 0)" "completed = (\<not> r2 < 0)"
        by (auto simp: rbind_eq_Inr split: if_splits)
      have "take (nat r) ?u = ?u" using 3 by simp
      moreover have "only_calls c ([CallBody k ?u False r] @ [CallBody k [] True r2]) c'"
        using oc h3_send_body_only_calls [OF s2] res(1) by (blast intro: only_calls_trans)
      moreover have "ostream_ok k ?st" "unsent ?st = []"
        using id by (simp_all add: ostream_ok_def unsent_def)
      ultimately show ?thesis using 3 res
        by (intro exI [of _ "[CallBody k ?u False r, CallBody k [] True r2]"])
           (auto simp: fin_taken_def)
    qed
  qed
qed

section \<open>One pass\<close>

text \<open>What a pass over the entries \<open>m\<close> does: \<open>m'\<close> are the updated entries, \<open>cs\<close> its calls.\<close>

definition pass_spec ::
    "(u64, outgoing_stream) umap \<Rightarrow> (u64, outgoing_stream) umap \<Rightarrow> u64 list \<Rightarrow> qcall list \<Rightarrow> bool" where
  "pass_spec m m' ids cs \<longleftrightarrow>
     map fst m' = map fst m \<and> (\<forall>(k, st) \<in> set m'. ostream_ok k st) \<and>
     (\<forall>k. accepted k cs @ pending k m' = pending k m) \<and>
     set ids \<subseteq> fst ` set m \<and>
     (\<forall>k. k \<in> set ids \<longleftrightarrow> fin_taken k cs) \<and> (\<forall>k \<in> set ids. pending k m' = []) \<and>
     (\<forall>k. k \<notin> fst ` set m \<longrightarrow> accepted k cs = [] \<and> \<not> fin_taken k cs)"

lemma fin_taken_append: "fin_taken k (xs @ ys) \<longleftrightarrow> fin_taken k xs \<or> fin_taken k ys"
  by (auto simp: fin_taken_def)

lemma flush_streams_spec:
  "flush_streams Q m c = Inr (m', ids, c') \<Longrightarrow> outgoing_ok m \<Longrightarrow>
   \<exists>cs. only_calls c cs c' \<and> pass_spec m m' ids cs"
proof (induction m arbitrary: c m' ids)
  case Nil
  then show ?case
    by (intro exI [of _ "[]"]) (auto simp: pass_spec_def fin_taken_def)
next
  case (Cons e m)
  obtain k st where e: "e = (k, st)" by (cases e)
  with Cons.prems obtain brk completed st' c1 where
      one: "flush_stream Q st c = Inr ((brk, completed, st'), c1)"
    and rest: "(if brk then Inr ((k, st') # m, [], c1)
        else rbind (flush_streams Q m c1) (\<lambda>(rest', ids, c).
          Inr ((k, st') # rest', (if completed then [out_Id st'] else []) @ ids, c))) = Inr (m', ids, c')"
    by (auto simp: rbind_eq_Inr)
  from Cons.prems(2) e have ok: "ostream_ok k st" "k \<notin> fst ` set m" "outgoing_ok m" by simp_all
  from flush_stream_spec [OF one ok(1)] obtain cs1 where
      oc1: "only_calls c cs1 c1" and ok1: "ostream_ok k st'"
    and acc1: "accepted k cs1 @ unsent st' = unsent st" "\<And>k'. k' \<noteq> k \<Longrightarrow> accepted k' cs1 = []"
    and fin1: "\<And>k'. fin_taken k' cs1 \<Longrightarrow> k' = k"
    and comp: "completed \<Longrightarrow> \<not> brk \<and> unsent st' = [] \<and> fin_taken k cs1" "fin_taken k cs1 \<Longrightarrow> completed"
    by blast
  show ?case
  proof (cases brk)
    case True
    with rest have "m' = (k, st') # m" "ids = []" "c' = c1" by simp_all
    moreover have "\<not> fin_taken k' cs1" for k'
      using True comp fin1 by blast
    ultimately show ?thesis
      using e oc1 ok ok1 acc1
      by (intro exI [of _ cs1]) (auto simp: pass_spec_def outgoing_ok_def)
  next
    case False
    with rest obtain m1 ids1 where r: "flush_streams Q m c1 = Inr (m1, ids1, c')"
      and res: "m' = (k, st') # m1" "ids = (if completed then [k] else []) @ ids1"
      using ok1 by (auto simp: rbind_eq_Inr ostream_ok_def)
    from Cons.IH [OF r ok(3)] obtain cs2 where oc2: "only_calls c1 cs2 c'"
      and ps: "pass_spec m m1 ids1 cs2" by blast
    have k: "accepted k cs2 = []" "\<not> fin_taken k cs2" "k \<notin> set ids1" "k \<notin> fst ` set m1"
      using ps ok(2) unfolding pass_spec_def by (auto simp flip: set_map)
    have "pass_spec ((k, st) # m) m' ids (cs1 @ cs2)"
      using ps res k ok1 acc1 comp fin1
      unfolding pass_spec_def by (auto simp: fin_taken_append)
    with e only_calls_trans [OF oc1 oc2] show ?thesis by blast
  qed
qed

section \<open>FlushTransfers\<close>

lemma pending_erase: "pending k (um_erase k' m) = (if k = k' then [] else pending k m)"
  by (simp add: pending_def um_find_erase)

lemma pending_fold_erase:
  "pending k (fold um_erase ids m) = (if k \<in> set ids then [] else pending k m)"
  by (induction ids arbitrary: m) (auto simp: pending_erase)

lemma keys_fold_erase: "fst ` set (fold um_erase ids m) = fst ` set m - set ids"
  by (induction ids arbitrary: m) (auto simp: um_erase_set image_iff)

lemma outgoing_ok_erase: "outgoing_ok m \<Longrightarrow> outgoing_ok (um_erase k m)"
  by (auto simp: outgoing_ok_def um_inv_erase um_erase_set)

lemma outgoing_ok_fold_erase: "outgoing_ok m \<Longrightarrow> outgoing_ok (fold um_erase ids m)"
  by (induction ids arbitrary: m) (auto simp: outgoing_ok_erase)

text \<open>The queue before and after, and the calls of the pass.\<close>

definition flush_spec ::
    "(u64, outgoing_stream) umap \<Rightarrow> (u64, outgoing_stream) umap \<Rightarrow> qcall list \<Rightarrow> bool" where
  "flush_spec m m' cs \<longleftrightarrow>
     outgoing_ok m' \<and> (\<forall>k. accepted k cs @ pending k m' = pending k m) \<and>
     (\<forall>k. fin_taken k cs \<longleftrightarrow> k \<in> fst ` set m \<and> k \<notin> fst ` set m') \<and>
     fst ` set m' \<subseteq> fst ` set m"

lemma FlushTransfers_spec:
  assumes "FlushTransfers Q c = Inr c'" and "outgoing_ok (outgoing_streams_by_id c)"
  shows "\<exists>cs c1. only_calls c cs c1 \<and>
     c' = c1\<lparr>outgoing_streams_by_id := outgoing_streams_by_id c'\<rparr> \<and>
     flush_spec (outgoing_streams_by_id c) (outgoing_streams_by_id c') cs"
proof -
  let ?m = "outgoing_streams_by_id c"
  from assms(1) obtain m' ids c1 where r: "flush_streams Q ?m c = Inr (m', ids, c1)"
    and c': "c' = c1\<lparr>outgoing_streams_by_id := fold um_erase ids m'\<rparr>"
    by (auto simp: FlushTransfers_def rbind_eq_Inr)
  from flush_streams_spec [OF r assms(2)] obtain cs where oc: "only_calls c cs c1"
    and ps: "pass_spec ?m m' ids cs" by blast
  have keys: "fst ` set m' = fst ` set ?m"
    using ps unfolding pass_spec_def by (metis list.set_map)
  have "um_inv m'" using ps assms(2) by (simp add: pass_spec_def outgoing_ok_def um_inv_def)
  then have ok: "outgoing_ok m'" using ps by (simp add: pass_spec_def outgoing_ok_def)
  have led: "accepted k cs @ pending k (fold um_erase ids m') = pending k ?m" for k
  proof (cases "k \<in> set ids")
    case True
    then have "pending k m' = []" using ps by (simp add: pass_spec_def)
    moreover have "accepted k cs @ pending k m' = pending k ?m" using ps by (simp add: pass_spec_def)
    ultimately show ?thesis using True by (simp add: pending_fold_erase)
  next
    case False
    then show ?thesis using ps by (simp add: pending_fold_erase pass_spec_def)
  qed
  have fin: "fin_taken k cs \<longleftrightarrow> k \<in> fst ` set ?m \<and> k \<notin> fst ` set (fold um_erase ids m')" for k
    using ps keys unfolding pass_spec_def by (auto simp: keys_fold_erase)
  have "flush_spec ?m (fold um_erase ids m') cs"
    using outgoing_ok_fold_erase [OF ok, of ids] led fin keys
    by (auto simp: flush_spec_def keys_fold_erase)
  with oc c' show ?thesis by auto
qed

lemma flush_spec_ledger: "flush_spec m m' cs \<Longrightarrow> accepted k cs @ pending k m' = pending k m"
  by (simp add: flush_spec_def)

section \<open>Cached responses\<close>

text \<open>Calls that concern stream \<open>k\<close> with a FIN flag set, headers or body.\<close>

fun sets_fin :: "u64 \<Rightarrow> qcall \<Rightarrow> bool" where
  "sets_fin k (CallBody sid data fin r) = (sid = k \<and> fin)"
| "sets_fin k (CallResponse sid hdrs fin r) = (sid = k \<and> fin)"
| "sets_fin k _ = False"

fun call_stream :: "qcall \<Rightarrow> u64 option" where
  "call_stream (CallBody sid data fin r) = Some sid"
| "call_stream (CallResponse sid hdrs fin r) = Some sid"
| "call_stream (CallRecv sid len data) = Some sid"
| "call_stream (CallShutdown sid dir) = Some sid"
| "call_stream _ = None"

text \<open>
  The two ways an iteration returns: after the headers alone, or after the headers and one
  attempt at the body. \<open>hdrs\<close> are the headers as read back.
\<close>

definition after_body :: "'q quiche \<Rightarrow> cached_response \<Rightarrow> int \<Rightarrow> cached_response option" where
  "after_body Q cr sent =
     (if sent = q_h3err Q QUICHE_H3_ERR_DONE then None
      else if sent = H3_BLOCKED Q then Some cr
      else if sent < 0 \<or> cr_bytes_left cr \<le> sent then None
      else Some (cr\<lparr>cr_bytes_left := cr_bytes_left cr - sent\<rparr>))"

lemma sets_fin_stream: "sets_fin k x \<Longrightarrow> call_stream x = Some k"
  by (cases x) auto

lemma send_cached_body_cases:
  assumes "send_cached_body Q cr c = Inr (kept, c')"
  obtains
    (none) "kept = None" and "c' = c"
  | (body) data sent where "cr_data cr = Some data" and "0 < cr_bytes_left cr"
      and "h3_send_body Q (cr_stream_id cr) (take (nat (cr_bytes_left cr)) data) False c = Inr (sent, c')"
      and "kept = after_body Q cr sent"
proof (cases "cr_data cr")
  case None
  with assms show ?thesis by (intro none) (simp_all add: send_cached_body_def)
next
  case (Some data)
  show ?thesis
  proof (cases "0 < cr_bytes_left cr")
    case False
    with assms Some show ?thesis by (intro none) (simp_all add: send_cached_body_def)
  next
    case True
    show ?thesis
    proof (cases "h3_send_body Q (cr_stream_id cr) (take (nat (cr_bytes_left cr)) data) False c")
      case (Inl e)
      with assms Some True show ?thesis by (simp add: send_cached_body_def)
    next
      case (Inr p)
      obtain sent c1 where p: "p = (sent, c1)" by (cases p)
      with assms Some True Inr have "c' = c1 \<and> kept = after_body Q cr sent"
        by (simp add: send_cached_body_def after_body_def Let_def split: if_splits)
      with Inr p Some True show ?thesis by (intro body) simp_all
    qed
  qed
qed

lemma flush_cached_one_cases:
  assumes "flush_cached_one Q F cr c = Inr (kept, c')"
  obtains
    (headers) hdrs r where "freed_headers F (cr_headers cr) = Inr hdrs"
      and "h3_send_response Q (cr_stream_id cr) hdrs (cr_bytes_left cr \<le> 0) c = Inr (r, c')"
      and "kept = None \<or> kept = Some cr"
  | (body) hdrs r c1 data sent where "freed_headers F (cr_headers cr) = Inr hdrs"
      and "h3_send_response Q (cr_stream_id cr) hdrs False c = Inr (r, c1)" and "0 \<le> r"
      and "cr_data cr = Some data" and "0 < cr_bytes_left cr"
      and "h3_send_body Q (cr_stream_id cr) (take (nat (cr_bytes_left cr)) data) False c1 = Inr (sent, c')"
      and "kept = after_body Q cr sent"
proof -
  from assms obtain hdrs r c1 established where h: "freed_headers F (cr_headers cr) = Inr hdrs"
    and s: "h3_send_response Q (cr_stream_id cr) hdrs (cr_bytes_left cr \<le> 0) c = Inr (r, c1)"
    and rest: "(if r = H3_BLOCKED Q \<and> established then Inr (Some cr, c1)
       else if r < 0 then Inr (None, c1) else send_cached_body Q cr c1) = Inr (kept, c')"
    unfolding flush_cached_one_def
    by (elim rbind_pairE rbindE [where f = "\<lambda>hdrs. rbind (h3_send_response Q (cr_stream_id cr) hdrs _ c) _"]
        rbindE [where m = "read_conn _ _"]) blast
  show ?thesis
  proof (cases "(r = H3_BLOCKED Q \<and> established) \<or> r < 0")
    case True
    with rest have "c' = c1" "kept = None \<or> kept = Some cr" by (auto split: if_splits)
    with h s show ?thesis by (intro headers) simp_all
  next
    case False
    with rest have "send_cached_body Q cr c1 = Inr (kept, c')" and r: "0 \<le> r" by (auto split: if_splits)
    then show ?thesis
    proof (cases rule: send_cached_body_cases)
      case none
      with h s show ?thesis by (intro headers) simp_all
    next
      case (body data sent)
      with h s r show ?thesis by (intro that(2)) simp_all
    qed
  qed
qed

lemma flush_cached_one_spec:
  assumes "flush_cached_one Q F cr c = Inr (kept, c')"
  shows "\<exists>cs. only_calls c cs c' \<and>
     (\<forall>x \<in> set cs. call_stream x = Some (cr_stream_id cr)) \<and>
     (\<forall>x \<in> set cs. sets_fin (cr_stream_id cr) x \<longrightarrow> cr_bytes_left cr \<le> 0) \<and>
     (\<forall>cr'. kept = Some cr' \<longrightarrow> cr_stream_id cr' = cr_stream_id cr \<and> cr_data cr' = cr_data cr \<and>
        cr_headers cr' = cr_headers cr)"
  using assms
proof (cases rule: flush_cached_one_cases)
  case (headers hdrs r)
  with h3_send_response_only_calls [OF headers(2)] show ?thesis
    by (intro exI [of _ "[CallResponse (cr_stream_id cr) hdrs (cr_bytes_left cr \<le> 0) r]"]) auto
next
  case (body hdrs r c1 data sent)
  let ?d = "take (nat (cr_bytes_left cr)) data"
  have "only_calls c ([CallResponse (cr_stream_id cr) hdrs False r] @ [CallBody (cr_stream_id cr) ?d False sent]) c'"
    using h3_send_response_only_calls [OF body(2)] h3_send_body_only_calls [OF body(6)]
    by (rule only_calls_trans)
  with body(5,7) show ?thesis
    by (intro exI [of _ "[CallResponse (cr_stream_id cr) hdrs False r, CallBody (cr_stream_id cr) ?d False sent]"])
       (auto simp: after_body_def split: if_splits)
qed

definition cached_ids :: "cached_response list \<Rightarrow> u64 set" where
  "cached_ids crs = cr_stream_id ` set crs"

lemma cached_ids_simps [simp]:
  "cached_ids [] = {}" "cached_ids (cr # crs) = insert (cr_stream_id cr) (cached_ids crs)"
  "cached_ids (xs @ ys) = cached_ids xs \<union> cached_ids ys"
  by (simp_all add: cached_ids_def image_Un)

lemma flush_cached_spec:
  "flush_cached Q F crs c = Inr (crs', c') \<Longrightarrow>
   \<exists>cs. only_calls c cs c' \<and> (\<forall>x \<in> set cs. \<exists>k \<in> cached_ids crs. call_stream x = Some k) \<and>
     cached_ids crs' \<subseteq> cached_ids crs \<and>
     (\<forall>x \<in> set cs. \<forall>k. sets_fin k x \<longrightarrow> (\<exists>cr \<in> set crs. cr_stream_id cr = k \<and> cr_bytes_left cr \<le> 0))"
proof (induction crs arbitrary: c crs')
  case Nil
  then show ?case by (intro exI [of _ "[]"]) simp
next
  case (Cons cr crs)
  then obtain kept c1 rest where one: "flush_cached_one Q F cr c = Inr (kept, c1)"
    and r: "flush_cached Q F crs c1 = Inr (rest, c')"
    and crs': "crs' = (case kept of Some cr \<Rightarrow> [cr] | None \<Rightarrow> []) @ rest"
    by (auto simp: rbind_eq_Inr)
  from flush_cached_one_spec [OF one] obtain cs1 where oc1: "only_calls c cs1 c1"
    and 1: "\<forall>x \<in> set cs1. call_stream x = Some (cr_stream_id cr)"
      "\<forall>cr'. kept = Some cr' \<longrightarrow> cr_stream_id cr' = cr_stream_id cr"
      "\<forall>x \<in> set cs1. sets_fin (cr_stream_id cr) x \<longrightarrow> cr_bytes_left cr \<le> 0" by blast
  from Cons.IH [OF r] obtain cs2 where oc2: "only_calls c1 cs2 c'"
    and 2: "\<forall>x \<in> set cs2. \<exists>k \<in> cached_ids crs. call_stream x = Some k"
      "cached_ids rest \<subseteq> cached_ids crs"
      "\<forall>x \<in> set cs2. \<forall>k. sets_fin k x \<longrightarrow> (\<exists>cr \<in> set crs. cr_stream_id cr = k \<and> cr_bytes_left cr \<le> 0)" by blast
  have "cached_ids crs' \<subseteq> cached_ids (cr # crs)"
    using 1(2) 2(2) crs' by (cases kept) auto
  moreover have "\<forall>x \<in> set (cs1 @ cs2). \<exists>k \<in> cached_ids (cr # crs). call_stream x = Some k"
    using 1(1) 2(1) by auto
  moreover have "\<forall>x \<in> set (cs1 @ cs2). \<forall>k. sets_fin k x \<longrightarrow>
      (\<exists>cr' \<in> set (cr # crs). cr_stream_id cr' = k \<and> cr_bytes_left cr' \<le> 0)"
    using 1(1,3) 2(3) sets_fin_stream by fastforce
  ultimately show ?case using only_calls_trans [OF oc1 oc2] by blast
qed

lemma accepted_other: "\<forall>x \<in> set cs. call_stream x \<noteq> Some k \<Longrightarrow> accepted k cs = []"
proof (induction cs)
  case (Cons x cs)
  then show ?case by (cases x) auto
qed simp

lemma FlushCachedResponses_spec:
  assumes "FlushCachedResponses Q F c = Inr c'"
  shows "\<exists>cs c1. only_calls c cs c1 \<and> c' = c1\<lparr>response_cache := response_cache c'\<rparr> \<and>
     (\<forall>x \<in> set cs. \<exists>k \<in> cached_ids (response_cache c). call_stream x = Some k) \<and>
     cached_ids (response_cache c') \<subseteq> cached_ids (response_cache c) \<and>
     (\<forall>x \<in> set cs. \<forall>k. sets_fin k x \<longrightarrow> (\<exists>cr \<in> set (response_cache c). cr_stream_id cr = k \<and> cr_bytes_left cr \<le> 0))"
proof -
  from assms obtain kept c1 where r: "flush_cached Q F (response_cache c) c = Inr (kept, c1)"
    and c': "c' = c1\<lparr>response_cache := kept\<rparr>"
    by (auto simp: FlushCachedResponses_def rbind_eq_Inr)
  from flush_cached_spec [OF r] obtain cs where "only_calls c cs c1"
    "\<forall>x \<in> set cs. \<exists>k \<in> cached_ids (response_cache c). call_stream x = Some k"
    "cached_ids kept \<subseteq> cached_ids (response_cache c)"
    "\<forall>x \<in> set cs. \<forall>k. sets_fin k x \<longrightarrow> (\<exists>cr \<in> set (response_cache c). cr_stream_id cr = k \<and> cr_bytes_left cr \<le> 0)"
    by blast
  with c' show ?thesis by (intro exI [of _ cs] exI [of _ c1]) simp
qed

section \<open>Progress\<close>

text \<open>
  \<open>accepting\<close>: quiche takes at least one byte of a non-empty body and every FIN. Then each
  pass completes a stream or shortens what it has left, so as many passes as the longest
  queued body has bytes, and one for the FIN, empty the queue.
\<close>

definition accepting :: "'q quiche \<Rightarrow> bool" where
  "accepting Q \<longleftrightarrow> (\<forall>sid data fin q.
     (if data = [] then 0 else 1) \<le> fst (q_h3_send_body Q sid data fin q))"

lemma acceptingD:
  assumes "accepting Q"
  shows "0 \<le> fst (q_h3_send_body Q sid [] fin q)"
    and "data \<noteq> [] \<Longrightarrow> 1 \<le> fst (q_h3_send_body Q sid data fin q)"
  using assms unfolding accepting_def by (metis (full_types))+

lemma h3_send_body_returns:
  assumes "http3 c" and "conn c = Some q"
  shows "\<exists>r c'. h3_send_body Q sid data fin c = Inr (r, c') \<and> r = fst (q_h3_send_body Q sid data fin q) \<and>
     http3 c' \<and> conn c' \<noteq> None"
  using assms by (simp add: h3_send_body_def call_defs)

lemma flush_stream_returns:
  assumes "accepting Q" and "http3 c" and "conn c \<noteq> None" and "ostream_ok k st"
  obtains completed st' c' where "flush_stream Q st c = Inr ((False, completed, st'), c')"
    and "http3 c'" and "conn c' \<noteq> None" and "completed \<or> length (unsent st') < length (unsent st)"
proof -
  from assms(3) obtain q where q: "conn c = Some q" by blast
  let ?rem = "int (length (unsent st))"
  have rem: "to_i32 (int (length (out_Buffer st)) - SendOffset st) = ?rem"
    and d: "drop (nat (SendOffset st)) (out_Buffer st) = unsent st"
    using assms(4) by (simp_all add: remaining_eq) (simp add: unsent_def)
  show ?thesis
  proof (cases "unsent st = []")
    case True
    obtain r c1 where s: "h3_send_body Q (out_Id st) [] True c = Inr (r, c1)" "http3 c1" "conn c1 \<noteq> None"
      "r = fst (q_h3_send_body Q (out_Id st) [] True q)"
      using h3_send_body_returns [OF assms(2) q] by blast
    moreover have "\<not> r < 0" using acceptingD(1) [OF assms(1)] s(4) by (simp add: not_less)
    ultimately show ?thesis using True rem by (intro that [of True st c1]) (simp_all add: flush_stream_def Let_def)
  next
    case False
    obtain r c1 where s: "h3_send_body Q (out_Id st) (unsent st) False c = Inr (r, c1)" "http3 c1" "conn c1 \<noteq> None"
      "r = fst (q_h3_send_body Q (out_Id st) (unsent st) False q)"
      using h3_send_body_returns [OF assms(2) q] by blast
    have r: "1 \<le> r" using acceptingD(2) [OF assms(1) False] s(4) by simp
    show ?thesis
    proof (cases "r < ?rem")
      case True
      let ?st = "st\<lparr>SendOffset := SendOffset st + r\<rparr>"
      have "unsent ?st = drop (nat r) (unsent st)"
        using r assms(4) by (simp add: unsent_def ostream_ok_def nat_add_distrib add.commute)
      then have "length (unsent ?st) < length (unsent st)" using r False by simp
      with True r False s rem d show ?thesis
        by (intro that [of False ?st c1]) (simp_all add: flush_stream_def Let_def)
    next
      case big: False
      let ?st = "st\<lparr>out_Buffer := [], SendOffset := 0\<rparr>"
      obtain q1 where "conn c1 = Some q1" using s(3) by blast
      then obtain r2 c2 where f: "h3_send_body Q (out_Id st) [] True c1 = Inr (r2, c2)" "http3 c2" "conn c2 \<noteq> None"
        "r2 = fst (q_h3_send_body Q (out_Id st) [] True q1)"
        using h3_send_body_returns [OF s(2)] by blast
      have "\<not> r2 < 0" using acceptingD(1) [OF assms(1)] f(4) by (simp add: not_less)
      with f s big r False rem d show ?thesis
        by (intro that [of True ?st c2]) (simp_all add: flush_stream_def Let_def)
    qed
  qed
qed

lemma flush_streams_returns:
  assumes "accepting Q"
  shows "http3 c \<Longrightarrow> conn c \<noteq> None \<Longrightarrow> outgoing_ok m \<Longrightarrow> \<forall>(k, st) \<in> set m. length (unsent st) \<le> N \<Longrightarrow>
   \<exists>m' ids c'. flush_streams Q m c = Inr (m', ids, c') \<and> http3 c' \<and> conn c' \<noteq> None \<and>
     (\<forall>(k, st) \<in> set m'. k \<in> set ids \<or> length (unsent st) < N)"
proof (induction m arbitrary: c)
  case (Cons e m)
  obtain k st where e: "e = (k, st)" by (cases e)
  from Cons.prems(3) e have ok: "ostream_ok k st" by simp
  obtain completed st' c1 where 1: "flush_stream Q st c = Inr ((False, completed, st'), c1)" "http3 c1" "conn c1 \<noteq> None"
    "completed \<or> length (unsent st') < length (unsent st)"
    using flush_stream_returns [OF assms Cons.prems(1,2) ok] .
  have id: "out_Id st' = k" using flush_stream_spec [OF 1(1) ok] by (auto simp: ostream_ok_def)
  obtain m' ids c2 where 2: "flush_streams Q m c1 = Inr (m', ids, c2)" "http3 c2" "conn c2 \<noteq> None"
    "\<forall>(k, st) \<in> set m'. k \<in> set ids \<or> length (unsent st) < N"
    using Cons.IH [OF 1(2,3)] Cons.prems(3,4) e by auto
  have "completed \<or> length (unsent st') < N" using 1(4) Cons.prems(4) e by auto
  then have "\<forall>(k', st'') \<in> set ((k, st') # m'). k' \<in> set ((if completed then [k] else []) @ ids) \<or> length (unsent st'') < N"
    using 2(4) by auto
  moreover have "flush_streams Q (e # m) c = Inr ((k, st') # m', (if completed then [k] else []) @ ids, c2)"
    using 1 2 by (simp add: e id)
  ultimately show ?case using 2(2,3) by blast
qed simp

fun FlushTransfers_n :: "'q quiche \<Rightarrow> nat \<Rightarrow> 'q qconn \<Rightarrow> 'q qconn run" where
  "FlushTransfers_n Q 0 c = Inr c"
| "FlushTransfers_n Q (Suc n) c = rbind (FlushTransfers Q c) (FlushTransfers_n Q n)"

lemma um_erase_subset: "set (fold um_erase ids m) \<subseteq> {(k, v) \<in> set m. k \<notin> set ids}"
  by (induction ids arbitrary: m) (fastforce simp: um_erase_set)+

lemma FlushTransfers_shrinks:
  assumes "accepting Q" and "http3 c" and "conn c \<noteq> None" and "outgoing_ok (outgoing_streams_by_id c)"
    and "\<forall>(k, st) \<in> set (outgoing_streams_by_id c). length (unsent st) \<le> N"
  shows "\<exists>c'. FlushTransfers Q c = Inr c' \<and> http3 c' \<and> conn c' \<noteq> None \<and> outgoing_ok (outgoing_streams_by_id c') \<and>
     (\<forall>(k, st) \<in> set (outgoing_streams_by_id c'). length (unsent st) < N)"
proof -
  obtain m' ids c1 where r: "flush_streams Q (outgoing_streams_by_id c) c = Inr (m', ids, c1)" "http3 c1" "conn c1 \<noteq> None"
    "\<forall>(k, st) \<in> set m'. k \<in> set ids \<or> length (unsent st) < N"
    using flush_streams_returns [OF assms] by blast
  let ?c = "c1\<lparr>outgoing_streams_by_id := fold um_erase ids m'\<rparr>"
  have f: "FlushTransfers Q c = Inr ?c" using r(1) by (simp add: FlushTransfers_def)
  have "outgoing_ok (outgoing_streams_by_id ?c)"
    using FlushTransfers_spec [OF f assms(4)] by (auto simp: flush_spec_def)
  moreover have "\<forall>(k, st) \<in> set (fold um_erase ids m'). length (unsent st) < N"
    using r(4) um_erase_subset [of ids m'] by fastforce
  ultimately show ?thesis using f r(2,3) by simp
qed

lemma FlushTransfers_n_drains:
  assumes "accepting Q"
  shows "http3 c \<Longrightarrow> conn c \<noteq> None \<Longrightarrow> outgoing_ok (outgoing_streams_by_id c) \<Longrightarrow>
   \<forall>(k, st) \<in> set (outgoing_streams_by_id c). length (unsent st) < n \<Longrightarrow>
   \<exists>c'. FlushTransfers_n Q n c = Inr c' \<and> outgoing_streams_by_id c' = []"
proof (induction n arbitrary: c)
  case 0
  then show ?case by (cases "outgoing_streams_by_id c") auto
next
  case (Suc n)
  from FlushTransfers_shrinks [OF assms Suc.prems(1-3), of n] Suc.prems(4) obtain c1 where
      1: "FlushTransfers Q c = Inr c1" "http3 c1" "conn c1 \<noteq> None" "outgoing_ok (outgoing_streams_by_id c1)"
      "\<forall>(k, st) \<in> set (outgoing_streams_by_id c1). length (unsent st) < n"
    by (auto simp: less_Suc_eq_le)
  from Suc.IH [OF 1(2-5)] 1(1) show ?case by simp
qed

section \<open>Properties\<close>

lemmas flush_eval = FlushTransfers_def flush_stream_def h3_send_body_def call_defs to_i32_def Let_def
  um_erase_def script_defs

text \<open>
  C5: Queued bodies are neither lost, repeated nor reordered. For every behaviour of quiche,
  a pass of \<open>FlushTransfers\<close> over a well-formed queue keeps it well-formed, and for every
  stream the bytes quiche accepted in this pass followed by the bytes still queued are the
  bytes that were queued before; a stream's FIN is accepted exactly if the stream leaves the
  queue in this pass.
\<close>

theorem flush_transfers_ledger:
  assumes "FlushTransfers Q c = Inr c'" and "outgoing_ok (outgoing_streams_by_id c)"
  shows "outgoing_ok (outgoing_streams_by_id c') \<and>
    (\<exists>cs. calls c' = calls c @ cs \<and>
      (\<forall>k. accepted k cs @ pending k (outgoing_streams_by_id c') = pending k (outgoing_streams_by_id c)) \<and>
      (\<forall>k. fin_taken k cs \<longleftrightarrow>
         k \<in> fst ` set (outgoing_streams_by_id c) \<and> k \<notin> fst ` set (outgoing_streams_by_id c')))"
proof -
  from FlushTransfers_spec [OF assms] obtain cs c1 m where oc: "only_calls c cs c1"
    and c': "c' = c1\<lparr>outgoing_streams_by_id := m\<rparr>"
    and f: "flush_spec (outgoing_streams_by_id c) (outgoing_streams_by_id c') cs" by blast
  have "calls c' = calls c @ cs" using only_calls_frame(1) [OF oc] c' by simp
  with f show ?thesis by (auto simp: flush_spec_def)
qed

definition ex_transfer :: "script qconn" where
  "ex_transfer = (script_conn True (idle\<lparr>sc_send_body := [2, 1, 0]\<rparr>))
     \<lparr>outgoing_streams_by_id := [(4, \<lparr>out_Id = 4, SendOffset = 0, out_Buffer = [1, 2, 3]\<rparr>),
                                (8, \<lparr>out_Id = 8, SendOffset = 1, out_Buffer = [9, 9]\<rparr>)]\<rparr>"

theorem flush_transfers_ledger_witness:
  "\<exists>c' cs. FlushTransfers scripted ex_transfer = Inr c' \<and> calls c' = cs \<and> accepted 4 cs = [1, 2] \<and>
     fin_taken 8 cs \<and> pending 4 (outgoing_streams_by_id c') = [3]"
proof -
  have "\<exists>c'. FlushTransfers scripted ex_transfer = Inr c' \<and>
      outgoing_streams_by_id c' = [(4, \<lparr>out_Id = 4, SendOffset = 2, out_Buffer = [1, 2, 3]\<rparr>)]"
    by (simp add: ex_transfer_def flush_eval)
  then obtain c' where r: "FlushTransfers scripted ex_transfer = Inr c'"
    and o: "outgoing_streams_by_id c' = [(4, \<lparr>out_Id = 4, SendOffset = 2, out_Buffer = [1, 2, 3]\<rparr>)]" by blast
  have ok: "outgoing_ok (outgoing_streams_by_id ex_transfer)"
    by (simp add: ex_transfer_def ostream_ok_def)
  from flush_transfers_ledger [OF r ok] obtain cs where cs: "calls c' = calls ex_transfer @ cs"
    and l: "\<forall>k. accepted k cs @ pending k (outgoing_streams_by_id c') = pending k (outgoing_streams_by_id ex_transfer)"
    and f: "\<forall>k. fin_taken k cs \<longleftrightarrow> k \<in> fst ` set (outgoing_streams_by_id ex_transfer) \<and>
       k \<notin> fst ` set (outgoing_streams_by_id c')" by blast
  have "accepted 4 cs @ [3] = [1, 2, 3]" using l [rule_format, of 4] by (simp add: o ex_transfer_def unsent_def)
  moreover have "fin_taken 8 cs" using f [rule_format, of 8] by (simp add: o ex_transfer_def)
  moreover have "pending 4 (outgoing_streams_by_id c') = [3]" by (simp add: o unsent_def)
  moreover have "calls c' = cs" using cs by (simp add: ex_transfer_def script_defs)
  ultimately show ?thesis using r by (intro exI [of _ c'] exI [of _ cs]) simp
qed


definition one_byte :: "script quiche" where
  "one_byte = scripted\<lparr>q_h3_send_body := (\<lambda>sid data fin q. (if data = [] then 0 else 1, q))\<rparr>"


text \<open>
  One refused stream holds up every other. If quiche refuses the first queued stream's
  data (or its FIN when nothing is left), the pass ends there: no other stream is offered,
  whatever quiche would accept for it, and the queue is unchanged.
\<close>

lemma head_of_line_blocking:
  assumes "outgoing_streams_by_id c = (k, st) # rest" and "ostream_ok k st"
    and "http3 c" and "conn c = Some q" and "fst (q_h3_send_body Q k (unsent st) (unsent st = []) q) < 0"
  shows "\<exists>r q'. FlushTransfers Q c =
    Inr (c\<lparr>conn := Some q', calls := calls c @ [CallBody k (unsent st) (unsent st = []) r]\<rparr>)"
proof -
  have id: "out_Id st = k" and d: "drop (nat (SendOffset st)) (out_Buffer st) = unsent st"
    using assms(2) by (simp_all add: ostream_ok_def unsent_def)
  let ?r = "fst (q_h3_send_body Q k (unsent st) (unsent st = []) q)"
    and ?q = "snd (q_h3_send_body Q k (unsent st) (unsent st = []) q)"
  let ?c = "c\<lparr>conn := Some ?q, calls := calls c @ [CallBody k (unsent st) (unsent st = []) ?r]\<rparr>"
  have "h3_send_body Q k (unsent st) (unsent st = []) c = Inr (?r, ?c)"
    using assms(3,4) by (simp add: h3_send_body_def call_defs)
  then have "flush_stream Q st c = Inr ((True, False, st), ?c)"
    using assms(5) id d remaining_eq [OF assms(2)] by (cases "unsent st = []") (simp_all add: flush_stream_def Let_def)
  then have "FlushTransfers Q c = Inr (?c\<lparr>outgoing_streams_by_id := (k, st) # rest\<rparr>)"
    using assms(1) by (simp add: FlushTransfers_def)
  moreover have "?c\<lparr>outgoing_streams_by_id := (k, st) # rest\<rparr> = ?c" using assms(1) by simp
  ultimately show ?thesis by (intro exI [of _ ?r] exI [of _ ?q]) simp
qed

definition ex_blocked :: "script qconn" where
  "ex_blocked = ex_transfer\<lparr>conn := Some (idle\<lparr>sc_send_body := [- 13, 1, 0]\<rparr>)\<rparr>"

lemma head_of_line_blocking_example:
  "\<exists>c'. FlushTransfers scripted ex_blocked = Inr c' \<and> length (outgoing_streams_by_id c') = 2"
  using head_of_line_blocking [of ex_blocked 4 "\<lparr>out_Id = 4, SendOffset = 0, out_Buffer = [1, 2, 3]\<rparr>"
      "[(8, \<lparr>out_Id = 8, SendOffset = 1, out_Buffer = [9, 9]\<rparr>)]" "idle\<lparr>sc_send_body := [- 13, 1, 0]\<rparr>" scripted]
  by (auto simp: ex_blocked_def ex_transfer_def script_conn_def ostream_ok_def unsent_def idle_def)

text \<open>
  C32: A cached response with a body is never finished. Flushing the cache asks quiche for a
  FIN on stream \<open>k\<close> only if some cached response for \<open>k\<close> has no bytes left; so when all of
  them have a body, none of the calls of the flush sets FIN on \<open>k\<close>, whatever quiche answers
  and although the response leaves the cache once its bytes were taken.
\<close>

theorem cached_response_never_finished:
  assumes "FlushCachedResponses Q F c = Inr c'"
    and "\<forall>cr \<in> set (response_cache c). cr_stream_id cr = k \<longrightarrow> 0 < cr_bytes_left cr"
  shows "\<exists>cs. calls c' = calls c @ cs \<and> (\<forall>x \<in> set cs. \<not> sets_fin k x)"
proof -
  from FlushCachedResponses_spec [OF assms(1)] obtain cs c1 where oc: "only_calls c cs c1"
    and c': "c' = c1\<lparr>response_cache := response_cache c'\<rparr>"
    and f: "\<forall>x \<in> set cs. \<forall>k. sets_fin k x \<longrightarrow>
      (\<exists>cr \<in> set (response_cache c). cr_stream_id cr = k \<and> cr_bytes_left cr \<le> 0)" by blast
  have "calls c' = calls c @ cs" using only_calls_frame(1) [OF oc] c' by (metis qconn.select_convs(16) qconn.update_convs(15) qconn.surjective)
  moreover have "\<forall>x \<in> set cs. \<not> sets_fin k x" using f assms(2) by force
  ultimately show ?thesis by blast
qed

definition ex_cached :: "script qconn" where
  "ex_cached = (script_conn True (idle\<lparr>sc_send_body := [3]\<rparr>))
     \<lparr>response_cache := [\<lparr>cr_stream_id = 4, cr_headers = [], cr_data = Some [1, 2, 3], cr_bytes_left = 3\<rparr>]\<rparr>"

lemmas cached_eval = FlushCachedResponses_def flush_cached_one_def send_cached_body_def h3_send_response_def
  h3_send_body_def call_defs script_defs

theorem cached_response_never_finished_witness:
  "\<exists>c'. FlushCachedResponses scripted kept_memory ex_cached = Inr c' \<and> response_cache c' = [] \<and>
     accepted 4 (calls c') = [1, 2, 3] \<and> filter (sets_fin 4) (calls c') = []"
proof -
  have "\<exists>c'. FlushCachedResponses scripted kept_memory ex_cached = Inr c' \<and> response_cache c' = [] \<and>
     accepted 4 (calls c') = [1, 2, 3]"
    by (simp add: ex_cached_def cached_eval)
  then obtain c' where r: "FlushCachedResponses scripted kept_memory ex_cached = Inr c'" "response_cache c' = []"
    "accepted 4 (calls c') = [1, 2, 3]" by blast
  have "\<forall>cr \<in> set (response_cache ex_cached). cr_stream_id cr = 4 \<longrightarrow> 0 < cr_bytes_left cr"
    by (simp add: ex_cached_def)
  from cached_response_never_finished [OF r(1) this] have "filter (sets_fin 4) (calls c') = []"
    by (auto simp: ex_cached_def script_defs filter_empty_conv)
  with r show ?thesis by blast
qed

text \<open>
  C33: A cached response that quiche takes in two parts is sent wrongly. When the first flush
  had \<open>r\<close> of the \<open>n\<close> bytes taken, the second one offers the first \<open>n - r\<close> bytes of the body
  again instead of the last: the peer gets the body's first \<open>r\<close> bytes twice and never its
  end.
\<close>

theorem cached_body_restarts:
  assumes "cr_data cr = Some data" and "cr_bytes_left cr = int (length data)"
    and "send_cached_body Q cr c = Inr (Some cr1, c1)" and "cr_bytes_left cr1 = int (length data) - r" and "0 < r"
    and "send_cached_body Q cr1 c1 = Inr (None, c2)" and "q_h3err Q QUICHE_H3_ERR_DONE < 0"
    and "calls c2 = calls c1 @ cs" and "accepted (cr_stream_id cr) cs \<noteq> []"
  shows "\<exists>cs1. calls c1 = calls c @ cs1 \<and>
    accepted (cr_stream_id cr) (cs1 @ cs) = take (nat r) data @ take (length data - nat r) data"
proof -
  let ?k = "cr_stream_id cr"
  from assms(3,1) obtain sent where pos: "0 < cr_bytes_left cr"
    and b: "h3_send_body Q ?k (take (nat (cr_bytes_left cr)) data) False c = Inr (sent, c1)"
    and k1: "Some cr1 = after_body Q cr sent"
    by (cases rule: send_cached_body_cases) auto
  from k1 assms(2,4,5) have sent: "sent = r" and cr1: "cr1 = cr\<lparr>cr_bytes_left := cr_bytes_left cr - r\<rparr>" and "r < int (length data)"
    by (auto simp: after_body_def split: if_splits)
  from assms(6) have "accepted ?k cs = take (length data - nat r) data"
  proof (cases rule: send_cached_body_cases)
    case none
    with assms(8,9) show ?thesis by simp
  next
    case (body data' sent')
    from body(1) assms(1) cr1 have "data' = data" by simp
    moreover from only_calls_frame(1) [OF h3_send_body_only_calls [OF body(3)]] assms(8)
    have cs: "cs = [CallBody ?k (take (nat (cr_bytes_left cr1)) data') False sent']" using cr1 by simp
    moreover have "0 \<le> sent'" using assms(9) cs by (simp split: if_splits)
    moreover from body(4) have "cr_bytes_left cr1 \<le> sent'"
      using \<open>0 \<le> sent'\<close> assms(7) by (auto simp: after_body_def split: if_splits)
    ultimately show ?thesis
      using assms(2) cr1 \<open>r < int (length data)\<close> assms(5) by (simp add: nat_diff_distrib min_def nat_le_iff)
  qed
  moreover have "calls c1 = calls c @ [CallBody ?k data False r]"
    using only_calls_frame(1) [OF h3_send_body_only_calls [OF b]] assms(2) sent by simp
  moreover have "accepted ?k [CallBody ?k data False r] = take (nat r) data" using assms(5) by simp
  ultimately show ?thesis by (intro exI [of _ "[CallBody ?k data False r]"]) simp
qed

definition ex_cr :: cached_response where
  "ex_cr = \<lparr>cr_stream_id = 4, cr_headers = [], cr_data = Some [1, 2, 3], cr_bytes_left = 3\<rparr>"

theorem cached_body_restarts_witness:
  "\<exists>cr1 c1 c2. send_cached_body scripted ex_cr (script_conn True (idle\<lparr>sc_send_body := [1, 2]\<rparr>)) = Inr (Some cr1, c1) \<and>
     send_cached_body scripted cr1 c1 = Inr (None, c2) \<and> accepted 4 (calls c2) = [1, 1, 2]"
proof -
  let ?c = "script_conn True (idle\<lparr>sc_send_body := [1, 2]\<rparr>)"
  have "\<exists>c1. send_cached_body scripted ex_cr ?c = Inr (Some (ex_cr\<lparr>cr_bytes_left := 2\<rparr>), c1) \<and>
      conn c1 = Some (idle\<lparr>sc_send_body := [2]\<rparr>) \<and> http3 c1"
    by (simp add: ex_cr_def cached_eval)
  then obtain c1 where 1: "send_cached_body scripted ex_cr ?c = Inr (Some (ex_cr\<lparr>cr_bytes_left := 2\<rparr>), c1)"
    "conn c1 = Some (idle\<lparr>sc_send_body := [2]\<rparr>)" "http3 c1" by blast
  have "\<exists>c2. send_cached_body scripted (ex_cr\<lparr>cr_bytes_left := 2\<rparr>) c1 = Inr (None, c2) \<and>
      calls c2 = calls c1 @ [CallBody 4 [1, 2] False 2]"
    using 1(2,3) by (simp add: ex_cr_def cached_eval)
  then obtain c2 where 2: "send_cached_body scripted (ex_cr\<lparr>cr_bytes_left := 2\<rparr>) c1 = Inr (None, c2)"
    "calls c2 = calls c1 @ [CallBody 4 [1, 2] False 2]" by blast
  have "\<exists>cs1. calls c1 = calls ?c @ cs1 \<and>
      accepted (cr_stream_id ex_cr) (cs1 @ [CallBody 4 [1, 2] False 2]) = take (nat 1) [1, 2, 3] @ take (length [1, 2, 3 :: u8] - nat 1) [1, 2, 3]"
    by (rule cached_body_restarts [OF _ _ 1(1) _ _ 2(1) _ 2(2)]) (simp_all add: ex_cr_def)
  then have "accepted 4 (calls c2) = [1, 1, 2]"
    using 2(2) by (auto simp: ex_cr_def script_defs)
  with 1(1) 2(1) show ?thesis by blast
qed

end
