(* ===== verification/QS_Owner.thy ===== *)
theory QS_Owner
  imports QS_Transfer
begin

text \<open>
  The contract between a connection and its owner. \<open>conn_owner\<close> states what the three
  callbacks of \<open>QCSettings\<close> may do; the server and the client each provide it. Inside the
  locale: what every operation of a connection keeps (\<open>evolves\<close>), in particular that the
  buffers it sends stay with one holder and that it posts at most one Timeout event.
\<close>

section \<open>Posting\<close>

definition post :: "event \<Rightarrow> 'q cst \<Rightarrow> 'q cst" where
  "post e s = s\<lparr>hs := (hs s)\<lparr>mailbox := Post e (mailbox (hs s))\<rparr>\<rparr>"

abbreviation queued :: "'q cst \<Rightarrow> event list" where
  "queued s \<equiv> events (mailbox (hs s))"

text \<open>The Timeout events for connection \<open>i\<close>.\<close>

definition timeouts :: "u64 \<Rightarrow> event list \<Rightarrow> nat" where
  "timeouts i es = length (filter (\<lambda>e. ev_Type e = TimeoutEvent \<and> ev_ConnectionAssignedId e = i) es)"

lemma timeouts_simps [simp]:
  "timeouts i [] = 0"
  "timeouts i (e # es) =
     (if ev_Type e = TimeoutEvent \<and> ev_ConnectionAssignedId e = i then 1 else 0) + timeouts i es"
  "timeouts i (xs @ ys) = timeouts i xs + timeouts i ys"
  by (simp_all add: timeouts_def)

text \<open>What an unauthenticated connection may post.\<close>

definition only_timeouts :: "event list \<Rightarrow> bool" where
  "only_timeouts es \<longleftrightarrow> (\<forall>e \<in> set es. ev_Type e = TimeoutEvent)"

lemma only_timeouts_simps [simp]:
  "only_timeouts []" "only_timeouts (e # es) \<longleftrightarrow> ev_Type e = TimeoutEvent \<and> only_timeouts es"
  "only_timeouts (xs @ ys) \<longleftrightarrow> only_timeouts xs \<and> only_timeouts ys"
  by (auto simp: only_timeouts_def)

definition timeout_event :: "u64 \<Rightarrow> event" where
  "timeout_event i = new_event\<lparr>ev_Type := TimeoutEvent, ev_ConnectionAssignedId := i\<rparr>"

lemma timeout_event_simps [simp]:
  "ev_Type (timeout_event i) = TimeoutEvent" "ev_ConnectionAssignedId (timeout_event i) = i"
  by (simp_all add: timeout_event_def)

lemma post_simps [simp]:
  "cn (post e s) = cn s" "net (hs (post e s)) = net (hs s)" "queued (post e s) = queued s @ [e]"
  "local_endpoint (hs (post e s)) = local_endpoint (hs s)" "closed (hs (post e s)) = closed (hs s)"
  by (simp_all add: post_def Post_def)

section \<open>The contract\<close>

text \<open>
  \<open>quiet\<close>: what a callback may do to the connection: mark it connected, close it or send a
  GOAWAY; its queues and the timeout flag stay.
\<close>

definition quiet :: "'q qconn \<Rightarrow> 'q qconn \<Rightarrow> bool" where
  "quiet c c' \<longleftrightarrow> (\<exists>q k g cs.
     c' = c\<lparr>conn := q, connected := k, goaway_sent := g, calls := calls c @ cs\<rparr> \<and>
     (\<forall>x \<in> set cs. call_stream x = None) \<and> (connected c \<longrightarrow> k))"

lemma quietI:
  "c' = c\<lparr>conn := q, connected := k, goaway_sent := g, calls := calls c @ cs\<rparr> \<Longrightarrow>
   (\<And>x. x \<in> set cs \<Longrightarrow> call_stream x = None) \<Longrightarrow> (connected c \<Longrightarrow> k) \<Longrightarrow> quiet c c'"
  unfolding quiet_def by blast

lemma quiet_refl [simp]: "quiet c c"
  by (rule quietI [where q = "conn c" and k = "connected c" and g = "goaway_sent c" and cs = "[]"]) simp_all

lemma quiet_trans:
  assumes "quiet c c1" and "quiet c1 c2"
  shows "quiet c c2"
proof -
  from assms(1) obtain q k g cs where 1: "c1 = c\<lparr>conn := q, connected := k, goaway_sent := g, calls := calls c @ cs\<rparr>"
    "\<forall>x \<in> set cs. call_stream x = None" "connected c \<longrightarrow> k" unfolding quiet_def by blast
  from assms(2) obtain q' k' g' cs' where 2: "c2 = c1\<lparr>conn := q', connected := k', goaway_sent := g', calls := calls c1 @ cs'\<rparr>"
    "\<forall>x \<in> set cs'. call_stream x = None" "connected c1 \<longrightarrow> k'" unfolding quiet_def by blast
  show ?thesis
    by (rule quietI [where q = q' and k = k' and g = g' and cs = "cs @ cs'"]) (use 1 2 in auto)
qed

lemma quiet_connected: "quiet c (c\<lparr>connected := True\<rparr>)"
  by (rule quietI [where q = "conn c" and k = True and g = "goaway_sent c" and cs = "[]"]) simp_all

lemma quiet_frame:
  assumes "quiet c c'"
  shows "incoming_streams_by_id c' = incoming_streams_by_id c"
    and "outgoing_streams_by_id c' = outgoing_streams_by_id c"
    and "response_cache c' = response_cache c"
    and "timed_out c' = timed_out c" and "AssignedId c' = AssignedId c" and "IsServer c' = IsServer c"
    and "dcid c' = dcid c" and "http3 c' = http3 c" and "timer_set c' = timer_set c"
    and "peer_endpoint c' = peer_endpoint c" and "connected c \<Longrightarrow> connected c'"
    and "\<exists>cs. calls c' = calls c @ cs \<and> (\<forall>x \<in> set cs. call_stream x = None)"
  using assms by (auto simp: quiet_def)

locale conn_owner =
  fixes cb :: "'q callbacks"
  assumes timeout_cb: "on_timeout cb i s = Inr s' \<Longrightarrow>
      cn s' = cn s \<and> net (hs s') = net (hs s) \<and> queued s' = queued s @ [timeout_event i]"
    and connect_cb: "on_connect cb i p s = Inr s' \<Longrightarrow>
      quiet (cn s) (cn s') \<and> net (hs s') = net (hs s) \<and>
      (\<exists>es. queued s' = queued s @ es \<and> (\<forall>j. timeouts j es = 0) \<and> (connected (cn s') \<or> es = []))"
    and data_cb: "on_data cb e s = Inr s' \<Longrightarrow> ev_Type e = DataEvent \<Longrightarrow>
      quiet (cn s) (cn s') \<and> net (hs s') = net (hs s) \<and>
      (\<exists>es. queued s' = queued s @ es \<and> (\<forall>j. timeouts j es = 0) \<and> (connected (cn s') \<or> es = []))"
    and data_cb_connected: "connected (cn s) \<Longrightarrow> on_data cb e s = Inr (post e s)"
begin

lemma timeout_cb_conn: "on_timeout cb i s = Inr s' \<Longrightarrow> cn s' = cn s"
  using timeout_cb by blast

end

section \<open>What every operation keeps\<close>

text \<open>
  \<open>evolves xs ys s s'\<close>: from \<open>s\<close> to \<open>s'\<close>, the code holding the buffers \<open>xs\<close> before and \<open>ys\<close>
  after. The record of calls and the mailbox grow, identity and the queue invariants are
  kept, one Timeout event is posted exactly if the timeout flag goes up, other events only
  if the connection is authenticated afterwards, and the socket moves by steps of its own
  relation.
\<close>

definition keeps :: "'q qconn \<Rightarrow> 'q qconn \<Rightarrow> bool" where
  "keeps c c' \<longleftrightarrow> AssignedId c' = AssignedId c \<and> IsServer c' = IsServer c \<and> dcid c' = dcid c \<and>
     (connected c \<longrightarrow> connected c') \<and>
     (um_inv (incoming_streams_by_id c) \<longrightarrow> um_inv (incoming_streams_by_id c')) \<and>
     (outgoing_ok (outgoing_streams_by_id c) \<longrightarrow> outgoing_ok (outgoing_streams_by_id c'))"

definition posts :: "'q cst \<Rightarrow> 'q cst \<Rightarrow> event list \<Rightarrow> bool" where
  "posts s s' es \<longleftrightarrow> queued s' = queued s @ es \<and>
     timeouts (AssignedId (cn s)) es + of_bool (timed_out (cn s)) = of_bool (timed_out (cn s')) \<and>
     (connected (cn s') \<or> only_timeouts es)"

definition evolves :: "nat list \<Rightarrow> nat list \<Rightarrow> 'q cst \<Rightarrow> 'q cst \<Rightarrow> bool" where
  evolves_parts: "evolves xs ys s s' \<longleftrightarrow>
     (\<exists>cs. calls (cn s') = calls (cn s) @ cs) \<and> (\<exists>es. posts s s' es) \<and> keeps (cn s) (cn s') \<and>
     (\<forall>owned. sock_steps (xs @ owned, net (hs s)) (ys @ owned, net (hs s')))"

lemmas evolves_def = evolves_parts posts_def keeps_def

lemma keeps_trans: "keeps c c1 \<Longrightarrow> keeps c1 c2 \<Longrightarrow> keeps c c2"
  by (simp add: keeps_def)

lemma posts_trans:
  assumes "posts s s1 es1" and "posts s1 s2 es2" and "keeps (cn s) (cn s1)" and "keeps (cn s1) (cn s2)"
  shows "posts s s2 (es1 @ es2)"
  using assms by (auto simp: posts_def keeps_def)

lemma evolves_refl [simp]: "evolves xs xs s s"
  by (auto simp: evolves_def intro!: exI [of _ "[]"])

lemma evolves_trans:
  assumes "evolves xs ys s s1" and "evolves ys zs s1 s2"
  shows "evolves xs zs s s2"
proof -
  have "\<exists>cs. calls (cn s2) = calls (cn s) @ cs" using assms unfolding evolves_parts by (metis append_assoc)
  moreover have "\<exists>es. posts s s2 es" using assms posts_trans unfolding evolves_parts by blast
  moreover have "keeps (cn s) (cn s2)" using assms keeps_trans unfolding evolves_parts by blast
  moreover have "sock_steps (xs @ owned, net (hs s)) (zs @ owned, net (hs s2))" for owned
    using assms unfolding evolves_parts by (meson rtranclp_trans)
  ultimately show ?thesis by (simp add: evolves_parts)
qed

lemma evolves_timed_out: "evolves xs ys s s' \<Longrightarrow> timed_out (cn s) \<Longrightarrow> timed_out (cn s')"
  by (cases "timed_out (cn s')") (simp_all add: evolves_def)

lemma evolves_sock:
  "evolves xs ys s s' \<Longrightarrow> sock_inv (xs @ owned) (net (hs s)) \<Longrightarrow> sock_inv (ys @ owned) (net (hs s'))"
  unfolding evolves_def using sock_steps_inv by fastforce

text \<open>Steps that change the connection only.\<close>

lemma evolves_cn:
  assumes "calls c' = calls (cn s) @ cs" and "timed_out c' = timed_out (cn s)"
    and "AssignedId c' = AssignedId (cn s)" and "IsServer c' = IsServer (cn s)"
    and "dcid c' = dcid (cn s)"
    and "connected (cn s) \<Longrightarrow> connected c'"
    and "um_inv (incoming_streams_by_id (cn s)) \<Longrightarrow> um_inv (incoming_streams_by_id c')"
    and "outgoing_ok (outgoing_streams_by_id (cn s)) \<Longrightarrow> outgoing_ok (outgoing_streams_by_id c')"
  shows "evolves xs xs s (s\<lparr>cn := c'\<rparr>)"
  using assms by (auto simp: evolves_def intro!: exI [of _ "[]"])

lemma evolves_only_calls: "only_calls (cn s) cs c' \<Longrightarrow> evolves xs xs s (s\<lparr>cn := c'\<rparr>)"
  by (rule evolves_cn) (auto dest: only_calls_frame)

lemma evolves_conn: "evolves xs xs s (s\<lparr>cn := (cn s)\<lparr>conn := q\<rparr>\<rparr>)"
  by (rule evolves_cn [of _ _ "[]"]) simp_all

lemma evolves_net:
  "(\<And>owned. sock_steps (xs @ owned, net (hs s)) (ys @ owned, n)) \<Longrightarrow>
   evolves xs ys s (s\<lparr>hs := (hs s)\<lparr>net := n\<rparr>\<rparr>)"
  by (auto simp: evolves_def)

end
