(* ===== verification/QS_ConnInv.thy ===== *)
theory QS_ConnInv
  imports QS_Owner
begin

text \<open>
  Every operation of a connection \<open>evolves\<close> its state, whatever quiche does and for every
  owner that keeps the contract \<open>conn_owner\<close>.
\<close>

section \<open>Operations that make calls only\<close>

lemma read_conn_Inr: "read_conn f c = Inr x \<Longrightarrow> \<exists>q. conn c = Some q \<and> x = f q"
  by (auto simp: read_conn_def split: option.splits)

lemma call_conn_Inr: "call_conn f c = Inr (x, c') \<Longrightarrow> \<exists>q. c' = c\<lparr>conn := q\<rparr>"
  by (auto simp: call_conn_def split: option.splits)

lemma call_h3_Inr: "call_h3 f c = Inr (x, c') \<Longrightarrow> \<exists>q. c' = c\<lparr>conn := q\<rparr>"
  by (auto simp: call_h3_def dest: call_conn_Inr split: if_splits)

lemma conn_only_calls: "only_calls c [] (c\<lparr>conn := q\<rparr>)"
  by (auto simp: only_calls_def)

lemma h3_send_request_only_calls:
  "h3_send_request Q hdrs fin c = Inr (r, c') \<Longrightarrow> only_calls c [CallRequest hdrs fin r] c'"
  by (elim h3_send_request_cases) (auto simp: only_calls_def)

lemma h3_recv_body_only_calls:
  "h3_recv_body Q sid room c = Inr ((len, data), c') \<Longrightarrow> only_calls c [CallRecv sid len data] c'"
  by (auto simp: h3_recv_body_def call_defs only_calls_def split: if_splits option.splits prod.splits)

lemma conn_close_only_calls: "conn_close Q reason c = Inr c' \<Longrightarrow> only_calls c [CallClose reason] c'"
  by (auto simp: conn_close_def call_defs only_calls_def split: option.splits)

lemma h3_send_goaway_only_calls:
  "h3_send_goaway Q i c = Inr (r, c') \<Longrightarrow> only_calls c [CallGoaway i r] c'"
  by (auto simp: h3_send_goaway_def call_defs only_calls_def split: if_splits option.splits)

lemma stream_shutdown_only_calls:
  "stream_shutdown Q sid dir c = Inr c' \<Longrightarrow> only_calls c [CallShutdown sid dir] c'"
  by (auto simp: stream_shutdown_def call_defs only_calls_def split: option.splits)

lemmas only_calls_rules =
  h3_send_body_only_calls h3_send_response_only_calls h3_send_request_only_calls
  h3_recv_body_only_calls conn_close_only_calls h3_send_goaway_only_calls stream_shutdown_only_calls

lemma only_calls_quiet:
  "only_calls c cs c' \<Longrightarrow> \<forall>x \<in> set cs. call_stream x = None \<Longrightarrow> quiet c c'"
  unfolding only_calls_def
  by (elim exE, rule quietI [where k = "connected c" and g = "goaway_sent c" and cs = cs]) simp_all

lemma Close_quiet:
  assumes "Close Q reason c = Inr c'"
  shows "quiet c c'"
proof (cases "timed_out c \<or> \<not> http3 c")
  case True
  with assms show ?thesis
    by (auto simp: Close_def split: if_splits dest!: conn_close_only_calls only_calls_quiet)
next
  case False
  with assms obtain r c1 where g: "h3_send_goaway Q (highest_processed_stream_id c) c = Inr (r, c1)"
    and rest: "(if r \<ge> 0 then Inr c1 else conn_close Q reason (c1\<lparr>goaway_sent := True\<rparr>)) = Inr c'"
    by (auto simp: Close_def elim!: rbind_pairE)
  have q1: "quiet c c1"
    using h3_send_goaway_only_calls [OF g] by (rule only_calls_quiet) simp
  show ?thesis
  proof (cases "r \<ge> 0")
    case True
    with rest q1 show ?thesis by simp
  next
    case False
    have "quiet c1 (c1\<lparr>goaway_sent := True\<rparr>)"
      by (rule quietI [where q = "conn c1" and k = "connected c1" and g = True and cs = "[]"]) simp_all
    moreover from False rest have "conn_close Q reason (c1\<lparr>goaway_sent := True\<rparr>) = Inr c'" by simp
    then have "quiet (c1\<lparr>goaway_sent := True\<rparr>) c'"
      by (intro only_calls_quiet [OF conn_close_only_calls]) simp_all
    ultimately show ?thesis using q1 quiet_trans by blast
  qed
qed

lemma ComparePeerCertificate_quiet:
  assumes "ComparePeerCertificate Q cert c = Inr (ok, c')"
  shows "quiet c c'"
proof -
  from assms obtain p where "(if to_i32 (int (length p)) \<noteq> to_i32 (int (length cert)) \<or>
          memcmp p cert (length p) \<noteq> 0
       then rbind (conn_close Q cert_reason c) (\<lambda>c. Inr (False, c))
       else Inr (True, c\<lparr>connected := True\<rparr>)) = Inr (ok, c')"
    unfolding ComparePeerCertificate_def by (rule rbindE)
  then show ?thesis
    by (auto split: if_splits elim!: rbindE intro: quiet_connected
        dest!: conn_close_only_calls only_calls_quiet)
qed

lemma evolves_quiet: "quiet (cn s) c' \<Longrightarrow> evolves xs xs s (s\<lparr>cn := c'\<rparr>)"
  by (auto simp: quiet_def intro: evolves_cn)

section \<open>Streams\<close>

lemma outgoing_ok_put:
  assumes "outgoing_ok m" and "ostream_ok k st"
  shows "outgoing_ok (um_put k st m)"
proof -
  have inv: "um_inv m" using assms(1) by (simp add: outgoing_ok_def)
  then have inv': "um_inv (um_put k st m)" by (rule um_inv_put)
  have "ostream_ok k' st'" if "(k', st') \<in> set (um_put k st m)" for k' st'
  proof -
    have f: "um_find k' (um_put k st m) = Some st'" using inv' that by (simp add: um_find_iff)
    show ?thesis
    proof (cases "k' = k")
      case True
      with f assms(2) show ?thesis by (simp add: um_find_put)
    next
      case False
      with f have "um_find k' m = Some st'" by (simp add: um_find_put)
      with inv assms(1) show ?thesis by (auto simp: um_find_iff outgoing_ok_def)
    qed
  qed
  with inv' show ?thesis by (auto simp: outgoing_ok_def)
qed

lemma DestroyStream_spec:
  assumes "DestroyStream Q sid c = Inr c'"
  shows "\<exists>c1. only_calls c [CallShutdown sid ShutdownRead, CallShutdown sid ShutdownWrite] c1 \<and>
     c' = c1\<lparr>incoming_streams_by_id := um_erase sid (incoming_streams_by_id c),
             outgoing_streams_by_id := um_erase sid (outgoing_streams_by_id c)\<rparr>"
proof -
  from assms obtain c1 c2 where 1: "stream_shutdown Q sid ShutdownRead c = Inr c1"
    and 2: "stream_shutdown Q sid ShutdownWrite c1 = Inr c2"
    and c': "c' = c2\<lparr>incoming_streams_by_id := um_erase sid (incoming_streams_by_id c2),
              outgoing_streams_by_id := um_erase sid (outgoing_streams_by_id c2)\<rparr>"
    by (auto simp: DestroyStream_def elim!: rbindE)
  have "only_calls c ([CallShutdown sid ShutdownRead] @ [CallShutdown sid ShutdownWrite]) c2"
    using 1 2 by (blast intro: only_calls_trans stream_shutdown_only_calls)
  with c' show ?thesis by (auto simp: only_calls_frame)
qed

lemma DestroyStream_evolves:
  assumes "DestroyStream Q sid (cn s) = Inr c'"
  shows "evolves xs xs s (s\<lparr>cn := c'\<rparr>)"
proof -
  from DestroyStream_spec [OF assms] obtain c1 cs where oc: "only_calls (cn s) cs c1"
    and c': "c' = c1\<lparr>incoming_streams_by_id := um_erase sid (incoming_streams_by_id (cn s)),
             outgoing_streams_by_id := um_erase sid (outgoing_streams_by_id (cn s))\<rparr>" by blast
  show ?thesis
    by (rule evolves_cn [where cs = cs])
       (use only_calls_frame [OF oc] c' in \<open>simp_all add: um_inv_erase outgoing_ok_erase\<close>)
qed

section \<open>The sending loop\<close>

abbreviation held :: "nat option \<Rightarrow> nat list" where
  "held b \<equiv> (case b of Some b \<Rightarrow> [b] | None \<Rightarrow> [])"

lemma egress_loop_spec:
  "egress_loop n Q buffer sent s = Inr ((finished, sent', b), s') \<Longrightarrow>
   (\<exists>q. cn s' = (cn s)\<lparr>conn := q\<rparr>) \<and> (\<exists>m. hs s' = (hs s)\<lparr>net := m\<rparr>) \<and>
   (\<forall>owned. sock_steps (held buffer @ owned, net (hs s)) (b # owned, net (hs s')))"
proof (induction n arbitrary: buffer sent s)
  case 0
  then show ?case by simp
next
  case (Suc n)
  obtain b0 net1 where al: "(case buffer of Some b \<Rightarrow> (b, net (hs s)) | None \<Rightarrow> sock_Allocate (net (hs s))) = (b0, net1)"
    by force
  then have st1: "sock_steps (held buffer @ owned, net (hs s)) (b0 # owned, net1)" for owned
    by (cases buffer) (auto intro: sock_steps_alloc)
  from Suc.prems al obtain written data to to_len c1 where
      cc: "call_conn (q_conn_send Q MAX_DATAGRAM_SEND_SIZE) (cn s) = Inr ((written, data, to, to_len), c1)"
    and rest: "(let s = s\<lparr>cn := c1, hs := (hs s)\<lparr>net := net1\<rparr>\<rparr>
        in if written = q_err Q QUICHE_ERR_DONE then Inr ((True, sent, b0), s)
           else if written < 0 then Inr ((False, sent, b0), s)
           else
             rbind (sockaddr_to_endpoint to to_len) (\<lambda>dest_endpoint.
               let (b', net2) = sock_Allocate (Send b0 dest_endpoint (fill_buffer b0 data written net1))
               in egress_loop n Q (Some b') True (s\<lparr>hs := (hs s)\<lparr>net := net2\<rparr>\<rparr>))) =
         Inr ((finished, sent', b), s')"
    by (auto elim!: rbindE)
  obtain q1 where c1: "c1 = (cn s)\<lparr>conn := q1\<rparr>" using call_conn_Inr [OF cc] by blast
  show ?case
  proof (cases "written = q_err Q QUICHE_ERR_DONE \<or> written < 0")
    case True
    with rest have "s' = s\<lparr>cn := c1, hs := (hs s)\<lparr>net := net1\<rparr>\<rparr>" "b = b0"
      by (auto simp: Let_def split: if_splits)
    with c1 st1 show ?thesis by (intro conjI) auto
  next
    case False
    with rest obtain dest b' net2 where
        a2: "sock_Allocate (Send b0 dest (fill_buffer b0 data written net1)) = (b', net2)"
      and r: "egress_loop n Q (Some b') True (s\<lparr>cn := c1, hs := (hs s)\<lparr>net := net2\<rparr>\<rparr>) = Inr ((finished, sent', b), s')"
      by (auto simp: Let_def elim!: rbindE split: prod.splits)
    note ih = Suc.IH [OF r]
    have "sock_steps (held buffer @ owned, net (hs s)) (b # owned, net (hs s'))" for owned
    proof -
      have "sock_steps (b' # owned, net2) (b # owned, net (hs s'))" using ih by simp
      then show ?thesis
        using st1 sock_steps_send [of b0 owned net1 dest data written] sock_steps_alloc [OF a2]
        by (meson rtranclp_trans)
    qed
    with ih c1 show ?thesis by (intro conjI) auto
  qed
qed

lemma egress_loop_evolves:
  assumes "egress_loop n Q buffer sent s = Inr ((finished, sent', b), s')"
  shows "evolves (held buffer) [b] s s'"
proof -
  from egress_loop_spec [OF assms] obtain q m where "cn s' = (cn s)\<lparr>conn := q\<rparr>" "hs s' = (hs s)\<lparr>net := m\<rparr>"
    and st: "\<forall>owned. sock_steps (held buffer @ owned, net (hs s)) (b # owned, net (hs s'))" by blast
  then have s': "s' = s\<lparr>cn := (cn s)\<lparr>conn := q\<rparr>, hs := (hs s)\<lparr>net := m\<rparr>\<rparr>" by simp
  let ?s1 = "s\<lparr>cn := (cn s)\<lparr>conn := q\<rparr>\<rparr>"
  have "evolves (held buffer) (held buffer) s ?s1" by (rule evolves_conn)
  moreover have "evolves (held buffer) [b] ?s1 (?s1\<lparr>hs := (hs ?s1)\<lparr>net := m\<rparr>\<rparr>)"
    by (rule evolves_net) (use st s' in simp)
  ultimately have "evolves (held buffer) [b] s (?s1\<lparr>hs := (hs ?s1)\<lparr>net := m\<rparr>\<rparr>)" by (rule evolves_trans)
  with s' show ?thesis by simp
qed

lemma evolves_FlushCachedResponses:
  assumes "FlushCachedResponses Q F (cn s) = Inr c'"
  shows "evolves xs xs s (s\<lparr>cn := c'\<rparr>)"
proof -
  from FlushCachedResponses_spec [OF assms] obtain cs c1 rc where oc: "only_calls (cn s) cs c1"
    and c': "c' = c1\<lparr>response_cache := rc\<rparr>" by blast
  show ?thesis
    by (rule evolves_cn [where cs = cs]) (use only_calls_frame [OF oc] c' in simp_all)
qed

abbreviation out_ok :: "'q cst \<Rightarrow> bool" where
  "out_ok s \<equiv> outgoing_ok (outgoing_streams_by_id (cn s))"

lemma evolves_out_ok: "evolves xs ys s s' \<Longrightarrow> out_ok s \<Longrightarrow> out_ok s'"
  by (simp add: evolves_def)

lemma evolves_FlushTransfers:
  assumes "FlushTransfers Q (cn s) = Inr c'" and "out_ok s"
  shows "evolves xs xs s (s\<lparr>cn := c'\<rparr>)"
proof -
  from FlushTransfers_spec [OF assms] obtain cs c1 where oc: "only_calls (cn s) cs c1"
    and c': "c' = c1\<lparr>outgoing_streams_by_id := outgoing_streams_by_id c'\<rparr>"
    and f: "flush_spec (outgoing_streams_by_id (cn s)) (outgoing_streams_by_id c') cs" by blast
  obtain m where m: "c' = c1\<lparr>outgoing_streams_by_id := m\<rparr>" using c' by blast
  show ?thesis
    by (rule evolves_cn [where cs = cs]) (use only_calls_frame [OF oc] m f in \<open>simp_all add: flush_spec_def\<close>)
qed

lemma queue_body_eq:
  "queue_body sid rest c = c\<lparr>outgoing_streams_by_id :=
     um_put sid ((case um_find sid (outgoing_streams_by_id c) of Some st \<Rightarrow> st | None \<Rightarrow> new_outgoing_stream sid)
        \<lparr>SendOffset := 0, out_Buffer := rest\<rparr>) (outgoing_streams_by_id (snd (GetOutgoingStream sid True c)))\<rparr>"
  by (auto simp: queue_body_def GetOutgoingStream_def split: option.splits)

lemma outgoing_ok_find: "outgoing_ok m \<Longrightarrow> um_find k m = Some st \<Longrightarrow> ostream_ok k st"
  by (auto simp: outgoing_ok_def dest: um_find_Some_in)

lemma queue_body_ok:
  assumes "outgoing_ok (outgoing_streams_by_id c)" and "length rest < 2 ^ 31"
  shows "outgoing_ok (outgoing_streams_by_id (queue_body sid rest c))"
proof -
  have "outgoing_ok (outgoing_streams_by_id (snd (GetOutgoingStream sid True c)))"
    using assms(1)
    by (auto simp: GetOutgoingStream_def ostream_ok_def new_outgoing_stream_def split: option.splits
        intro!: outgoing_ok_put)
  moreover have "ostream_ok sid ((case um_find sid (outgoing_streams_by_id c) of Some st \<Rightarrow> st
      | None \<Rightarrow> new_outgoing_stream sid)\<lparr>SendOffset := 0, out_Buffer := rest\<rparr>)"
    using assms outgoing_ok_find [OF assms(1), of sid]
    by (auto simp: ostream_ok_def new_outgoing_stream_def split: option.splits)
  ultimately show ?thesis by (simp add: queue_body_eq outgoing_ok_put)
qed

lemma evolves_queue_body:
  "length rest < 2 ^ 31 \<Longrightarrow> evolves xs xs s (s\<lparr>cn := queue_body sid rest (cn s)\<rparr>)"
  by (rule evolves_cn [of _ _ "[]"]) (simp_all add: queue_body_ok, simp_all add: queue_body_eq)

text \<open>The loop over a stream's received data only makes calls.\<close>

lemma recv_body_loop_calls:
  "recv_body_loop n Q sid stream c = Inr (stream', c') \<Longrightarrow> \<exists>cs. only_calls c cs c'"
proof (induction n arbitrary: stream c)
  case (Suc n)
  then obtain len buffer c1 where r: "h3_recv_body Q sid body_buf_size c = Inr ((len, buffer), c1)"
    and rest: "(if len = q_err Q QUICHE_ERR_DONE \<or> len = 0 then Inr (stream, c1)
       else if len > 0 then recv_body_loop n Q sid (OnData (take (nat len) buffer) stream) c1
       else recv_body_loop n Q sid stream c1) = Inr (stream', c')"
    by (auto elim!: rbindE)
  note oc = h3_recv_body_only_calls [OF r]
  from rest Suc.IH have "c' = c1 \<or> (\<exists>cs. only_calls c1 cs c')" by (auto split: if_splits)
  with oc show ?case using only_calls_trans by blast
qed simp

lemma evolves_incoming:
  assumes "um_inv (incoming_streams_by_id (cn s)) \<Longrightarrow> um_inv m"
  shows "evolves xs xs s (s\<lparr>cn := (cn s)\<lparr>incoming_streams_by_id := m\<rparr>\<rparr>)"
  by (rule evolves_cn [of _ _ "[]"]) (use assms in simp_all)

lemma GetIncomingStream_create:
  "GetIncomingStream sid True c =
     (case um_find sid (incoming_streams_by_id c) of
        Some st \<Rightarrow> (Some st, c)
      | None \<Rightarrow> (Some (new_incoming_stream sid), put_incoming sid (new_incoming_stream sid) c))"
  by (simp add: GetIncomingStream_def put_incoming_def split: option.splits)

lemma evolves_put_incoming: "evolves xs xs s (s\<lparr>cn := put_incoming sid st (cn s)\<rparr>)"
  unfolding put_incoming_def by (rule evolves_incoming) (rule um_inv_put)

lemma evolves_GetIncomingStream:
  "GetIncomingStream sid True (cn s) = (st, c') \<Longrightarrow> evolves xs xs s (s\<lparr>cn := c'\<rparr>)"
  by (auto simp: GetIncomingStream_create evolves_put_incoming split: option.splits)

lemma TickTimeout_cases:
  assumes "TickTimeout Q cb s = Inr s'"
  obtains (expired) s1 where "\<not> timed_out (cn s)" and "on_timeout cb (AssignedId (cn s)) s = Inr s1"
      and "s' = s1\<lparr>cn := (cn s1)\<lparr>timed_out := True\<rparr>\<rparr>"
  | (alive) q t where "s' = s\<lparr>cn := (cn s)\<lparr>conn := q, timer_set := t\<rparr>\<rparr>"
proof -
  have same: "s = s\<lparr>cn := (cn s)\<lparr>conn := conn (cn s), timer_set := timer_set (cn s)\<rparr>\<rparr>" by simp
  obtain q where q: "conn (cn s) = Some q"
    using assms by (cases "conn (cn s)") (simp_all add: TickTimeout_def read_conn_def)
  show ?thesis
  proof (cases "q_is_closed Q q")
    case True
    show ?thesis
    proof (cases "timed_out (cn s)")
      case to: True
      with assms q True have "s' = s\<lparr>cn := (cn s)\<lparr>timed_out := True\<rparr>\<rparr>" by (simp add: TickTimeout_def read_conn_def)
      moreover have "(cn s)\<lparr>timed_out := True\<rparr> = cn s" using to by simp
      ultimately show ?thesis using same alive [of "timer_set (cn s)" "conn (cn s)"] by simp
    next
      case False
      with assms q True show ?thesis
        by (cases "on_timeout cb (AssignedId (cn s)) s") (simp_all add: TickTimeout_def read_conn_def expired)
    qed
  next
    case live: False
    have "s' = s \<or> s' = s\<lparr>cn := (cn s)\<lparr>conn := Some (q_on_timeout Q q)\<rparr>\<rparr> \<or> s' = s\<lparr>cn := (cn s)\<lparr>timer_set := True\<rparr>\<rparr>"
      using assms q live by (auto simp: TickTimeout_def read_conn_def call_conn_def split: if_splits)
    moreover have "s\<lparr>cn := (cn s)\<lparr>conn := x\<rparr>\<rparr> = s\<lparr>cn := (cn s)\<lparr>conn := x, timer_set := timer_set (cn s)\<rparr>\<rparr>"
      "s\<lparr>cn := (cn s)\<lparr>timer_set := y\<rparr>\<rparr> = s\<lparr>cn := (cn s)\<lparr>conn := conn (cn s), timer_set := y\<rparr>\<rparr>" for x y by simp_all
    ultimately show ?thesis using same alive by metis
  qed
qed

section \<open>Every operation, for an owner that keeps the contract\<close>

context conn_owner
begin

text \<open>The callback and the flag together: one Timeout event, and the flag goes up.\<close>

lemma timeout_evolves:
  assumes "on_timeout cb (AssignedId (cn s)) s = Inr s1" and "\<not> timed_out (cn s)"
  shows "evolves xs xs s (s1\<lparr>cn := (cn s1)\<lparr>timed_out := True\<rparr>\<rparr>)"
  using timeout_cb [OF assms(1)] assms(2) by (auto simp: evolves_def)

lemma TickTimeout_evolves:
  assumes "TickTimeout Q cb s = Inr s'"
  shows "evolves xs xs s s'"
proof -
  from assms show ?thesis
  proof (cases rule: TickTimeout_cases)
    case (expired s1)
    then show ?thesis using timeout_evolves by simp
  next
    case (alive q t)
    then show ?thesis by (auto intro: evolves_cn [of _ _ "[]"])
  qed
qed

lemma FlushEgress_parts:
  assumes "FlushEgress n Q F cb buffer s = Inr ((sent, b), s')"
  obtains c1 c2 finished s3 where "FlushCachedResponses Q F (cn s) = Inr c1" and "FlushTransfers Q c1 = Inr c2"
    and "egress_loop n Q buffer False (s\<lparr>cn := c2\<rparr>) = Inr ((finished, sent, b), s3)"
    and "if finished then TickTimeout Q cb s3 = Inr s' else s' = s3"
proof -
  from assms obtain c1 c2 finished sent3 b3 s3 where 1: "FlushCachedResponses Q F (cn s) = Inr c1"
    and 2: "FlushTransfers Q c1 = Inr c2"
    and 3: "egress_loop n Q buffer False (s\<lparr>cn := c2\<rparr>) = Inr ((finished, sent3, b3), s3)"
    and 4: "(if finished then rbind (TickTimeout Q cb s3) (\<lambda>s. Inr ((sent3, b3), s))
       else Inr ((sent3, b3), s3)) = Inr ((sent, b), s')"
    by (auto simp: FlushEgress_def elim!: rbindE)
  from 4 have "sent3 = sent" "b3 = b" "if finished then TickTimeout Q cb s3 = Inr s' else s' = s3"
    by (auto split: if_splits elim!: rbindE)
  with 1 2 3 that show ?thesis by blast
qed

lemma FlushEgress_evolves:
  assumes "FlushEgress n Q F cb buffer s = Inr ((sent, b), s')" and "out_ok s"
  shows "evolves (held buffer) [b] s s'"
  using assms(1)
proof (rule FlushEgress_parts)
  fix c1 c2 finished s3
  assume 1: "FlushCachedResponses Q F (cn s) = Inr c1" and 2: "FlushTransfers Q c1 = Inr c2"
    and 3: "egress_loop n Q buffer False (s\<lparr>cn := c2\<rparr>) = Inr ((finished, sent, b), s3)"
    and 4: "if finished then TickTimeout Q cb s3 = Inr s' else s' = s3"
  let ?h = "held buffer"
  have e1: "evolves ?h ?h s (s\<lparr>cn := c1\<rparr>)" using 1 by (rule evolves_FlushCachedResponses)
  then have "out_ok (s\<lparr>cn := c1\<rparr>)" using assms(2) by (rule evolves_out_ok)
  then have "evolves ?h ?h (s\<lparr>cn := c1\<rparr>) ((s\<lparr>cn := c1\<rparr>)\<lparr>cn := c2\<rparr>)"
    using 2 by (intro evolves_FlushTransfers) simp_all
  then have "evolves ?h ?h s (s\<lparr>cn := c2\<rparr>)" using evolves_trans [OF e1] by simp
  then have e3: "evolves ?h [b] s s3" using egress_loop_evolves [OF 3] by (rule evolves_trans)
  from 4 have "evolves [b] [b] s3 s'" by (cases finished) (auto intro: TickTimeout_evolves)
  with e3 show ?thesis by (rule evolves_trans)
qed

lemma FlushEgress_local_evolves:
  assumes "FlushEgress_local n Q F cb s = Inr (sent, s')" and "out_ok s"
  shows "evolves [] [] s s'"
proof -
  from assms(1) obtain b s1 where f: "FlushEgress n Q F cb None s = Inr ((sent, b), s1)"
    and s': "s' = s1\<lparr>hs := (hs s1)\<lparr>net := sock_Free b (net (hs s1))\<rparr>\<rparr>"
    by (auto simp: FlushEgress_local_def elim!: rbindE)
  have "evolves [] [b] s s1" using FlushEgress_evolves [OF f assms(2)] by simp
  moreover have "evolves [b] [] s1 s'"
    unfolding s' by (rule evolves_net) (simp add: sock_steps_free)
  ultimately show ?thesis by (rule evolves_trans)
qed

lemma OnQuicheTimer_evolves:
  assumes "OnQuicheTimer n Q F cb ec s = Inr s'" and "out_ok s"
  shows "evolves [] [] s s'"
proof -
  let ?s = "s\<lparr>cn := (cn s)\<lparr>timer_set := False\<rparr>\<rparr>"
  have e0: "evolves [] [] s ?s" by (rule evolves_cn [of _ _ "[]"]) simp_all
  show ?thesis
  proof (cases "ec \<or> timed_out (cn s)")
    case True
    with assms e0 show ?thesis by (auto simp: OnQuicheTimer_def)
  next
    case False
    with assms obtain c1 r where 1: "call_conn (\<lambda>q. ((), q_on_timeout Q q)) (cn ?s) = Inr ((), c1)"
      and 2: "FlushEgress_local n Q F cb (?s\<lparr>cn := c1\<rparr>) = Inr (r, s')"
      by (auto simp: OnQuicheTimer_def Let_def elim!: rbindE)
    have e1: "evolves [] [] s (?s\<lparr>cn := c1\<rparr>)"
      using call_conn_Inr [OF 1] evolves_conn [of "[]" ?s] evolves_trans [OF e0] by blast
    then show ?thesis
      using FlushEgress_local_evolves [OF 2] evolves_out_ok [OF e1 assms(2)] evolves_trans by blast
  qed
qed

lemma SendBody_evolves:
  assumes "SendBody n Q F cb sid data bytes s = Inr (ok, s')" and "out_ok s" and "bytes < 2 ^ 31"
  shows "evolves [] [] s s'"
proof -
  have flush: "evolves [] [] s s'"
    if "rbind (FlushEgress_local n Q F cb s1) (\<lambda>(_, s). Inr (True, s)) = Inr (ok, s')" "evolves [] [] s s1" for s1
  proof -
    from that(1) obtain r where "FlushEgress_local n Q F cb s1 = Inr (r, s')" by (auto elim!: rbindE)
    then show ?thesis
      using FlushEgress_local_evolves evolves_out_ok [OF that(2) assms(2)] evolves_trans [OF that(2)] by blast
  qed
  show ?thesis
  proof (cases "bytes \<le> 0")
    case True
    with assms(1) flush [of s] show ?thesis by (simp add: SendBody_def)
  next
    case False
    with assms(1) obtain rc c1 where b: "h3_send_body Q sid (take (nat bytes) data) False (cn s) = Inr (rc, c1)"
      and rest: "(let rc = (if rc < 0 then 0 else rc)
         in if rc < bytes then
              rbind (FlushEgress_local n Q F cb (s\<lparr>cn := queue_body sid (drop (nat rc) (take (nat bytes) data)) c1\<rparr>))
                (\<lambda>(_, s). Inr (True, s))
            else
              rbind (h3_send_body Q sid [] True c1) (\<lambda>(rc, c).
                if rc < 0 then Inr (False, s\<lparr>cn := c\<rparr>)
                else rbind (FlushEgress_local n Q F cb (s\<lparr>cn := c\<rparr>)) (\<lambda>(_, s). Inr (True, s)))) = Inr (ok, s')"
      by (auto simp: SendBody_def elim!: rbindE)
    let ?rc = "if rc < 0 then 0 else rc"
    have e1: "evolves [] [] s (s\<lparr>cn := c1\<rparr>)"
      by (rule evolves_only_calls [OF h3_send_body_only_calls [OF b]])
    show ?thesis
    proof (cases "?rc < bytes")
      case True
      have "length (drop (nat ?rc) (take (nat bytes) data)) < 2 ^ 31" using assms(3) by (auto simp: less_diff_conv)
      then have "evolves [] [] (s\<lparr>cn := c1\<rparr>) (s\<lparr>cn := queue_body sid (drop (nat ?rc) (take (nat bytes) data)) c1\<rparr>)"
        using evolves_queue_body [of _ "[]" "s\<lparr>cn := c1\<rparr>"] by simp
      from flush [OF _ evolves_trans [OF e1 this]] rest True show ?thesis by (simp add: Let_def)
    next
      case F: False
      with rest obtain r2 c2 where f: "h3_send_body Q sid [] True c1 = Inr (r2, c2)"
        and rest2: "(if r2 < 0 then Inr (False, s\<lparr>cn := c2\<rparr>)
                else rbind (FlushEgress_local n Q F cb (s\<lparr>cn := c2\<rparr>)) (\<lambda>(_, s). Inr (True, s))) = Inr (ok, s')"
        by (auto simp: Let_def elim!: rbind_pairE)
      have "evolves [] [] (s\<lparr>cn := c1\<rparr>) ((s\<lparr>cn := c1\<rparr>)\<lparr>cn := c2\<rparr>)"
        by (rule evolves_only_calls) (use h3_send_body_only_calls [OF f] in simp)
      then have "evolves [] [] s (s\<lparr>cn := c2\<rparr>)" using evolves_trans [OF e1] by simp
      with rest2 flush show ?thesis by (auto split: if_splits)
    qed
  qed
qed

end

end
