(* ===== verification/QS_ConnRun.thy ===== *)
theory QS_ConnRun
  imports QS_ConnInv
begin

text \<open>
  The receiving side and the life cycle: every operation evolves the state, and the runs of
  a connection (\<open>conn_step\<close>): its own operations in any order, interleaved with the poller,
  with completed sends and with whatever else shares the socket and the mailbox.
\<close>

lemma GetIncomingStream_Some: "GetIncomingStream sid True c = (st, c') \<Longrightarrow> \<exists>stream. st = Some stream"
  by (cases st) (simp_all add: GetIncomingStream_create split: option.splits)

context conn_owner
begin

lemma SendResponse_evolves:
  assumes "SendResponse n Q F cb sid headers data bytes s = Inr (ok, s')" and "out_ok s" and "bytes < 2 ^ 31"
  shows "evolves [] [] s s'"
proof (cases "timed_out (cn s)")
  case True
  with assms(1) show ?thesis by (auto simp: SendResponse_def)
next
  case False
  with assms(1) obtain r c1 established where h: "h3_send_response Q sid headers (bytes \<le> 0) (cn s) = Inr (r, c1)"
    and rest: "(if r = H3_BLOCKED Q \<and> established then
            Inr (False, s\<lparr>cn := c1\<lparr>response_cache := response_cache c1 @
              [\<lparr>cr_stream_id = sid, cr_headers = headers,
                cr_data = (if bytes > 0 then map_option (take (nat bytes)) data else None),
                cr_bytes_left = bytes\<rparr>]\<rparr>\<rparr>)
          else if r < 0 then Inr (False, s\<lparr>cn := c1\<rparr>)
          else (case data of
              Some d \<Rightarrow> SendBody n Q F cb sid d bytes (s\<lparr>cn := c1\<rparr>)
            | None \<Rightarrow> if bytes > 0 then Inl NullDeref
                      else SendBody n Q F cb sid [] bytes (s\<lparr>cn := c1\<rparr>))) = Inr (ok, s')"
    by (auto simp: SendResponse_def elim!: rbindE)
  have e1: "evolves [] [] s (s\<lparr>cn := c1\<rparr>)"
    by (rule evolves_only_calls [OF h3_send_response_only_calls [OF h]])
  have "evolves [] [] (s\<lparr>cn := c1\<rparr>) (s\<lparr>cn := c1\<lparr>response_cache := rc\<rparr>\<rparr>)" for rc
    using evolves_cn [of "c1\<lparr>response_cache := rc\<rparr>" "s\<lparr>cn := c1\<rparr>" "[]"] by simp
  moreover have "evolves [] [] (s\<lparr>cn := c1\<rparr>) s'"
    if "SendBody n Q F cb sid d bytes (s\<lparr>cn := c1\<rparr>) = Inr (ok, s')" for d
    using SendBody_evolves [OF that] evolves_out_ok [OF e1 assms(2)] assms(3) by blast
  ultimately have "evolves [] [] (s\<lparr>cn := c1\<rparr>) s'"
    using rest by (cases data) (auto split: if_splits)
  with e1 show ?thesis by (rule evolves_trans)
qed

lemma SendRequest_attempt_evolves:
  assumes "SendRequest_attempt n Q F cb headers data bytes s = Inr (r, s')" and "out_ok s" and "bytes < 2 ^ 31"
  shows "evolves [] [] s s'"
proof -
  from assms(1) obtain i c1 established where h: "h3_send_request Q headers (bytes \<le> 0) (cn s) = Inr (i, c1)"
    and rest: "(if (i = H3_BLOCKED Q \<or>
           i = q_h3err Q QUICHE_H3_TRANSPORT_ERR_STREAM_LIMIT) \<and> established
       then Inr (None, s\<lparr>cn := c1\<rparr>)
       else if i < 0 then Inr (Some (- 1), s\<lparr>cn := c1\<rparr>)
       else rbind (SendBody n Q F cb (word_of_int i) data bytes (s\<lparr>cn := c1\<rparr>)) (\<lambda>(_, s).
         Inr (Some i, s))) = Inr (r, s')"
    by (auto simp: SendRequest_attempt_def elim!: rbindE)
  have e1: "evolves [] [] s (s\<lparr>cn := c1\<rparr>)"
    by (rule evolves_only_calls [OF h3_send_request_only_calls [OF h]])
  have "evolves [] [] (s\<lparr>cn := c1\<rparr>) s'"
    if "SendBody n Q F cb (word_of_int i) data bytes (s\<lparr>cn := c1\<rparr>) = Inr (ok, s')" for ok
    using SendBody_evolves [OF that] evolves_out_ok [OF e1 assms(2)] assms(3) by blast
  with rest have "evolves [] [] (s\<lparr>cn := c1\<rparr>) s'" by (auto split: if_splits elim!: rbindE)
  with e1 show ?thesis by (rule evolves_trans)
qed

lemma data_evolves:
  assumes "on_data cb e s = Inr s'" and "ev_Type e = DataEvent"
  shows "evolves xs xs s s'"
  using data_cb [OF assms] by (auto simp: evolves_def quiet_frame dest: quiet_frame(12))

lemma connect_evolves:
  assumes "on_connect cb i p s = Inr s'"
  shows "evolves xs xs s s'"
  using connect_cb [OF assms] by (auto simp: evolves_def quiet_frame dest: quiet_frame(12))

lemma handle_event_evolves:
  assumes "handle_event n Q cb sid ev s = Inr s'"
  shows "evolves [] [] s s'"
proof (cases ev)
  case (EvHeaders hdrs)
  obtain st c1 where g: "GetIncomingStream sid True (cn s) = (st, c1)" by fastforce
  have e1: "evolves [] [] s (s\<lparr>cn := c1\<rparr>)" using g by (rule evolves_GetIncomingStream)
  have "evolves [] [] (s\<lparr>cn := c1\<rparr>) s'"
    using assms EvHeaders g evolves_put_incoming [of "[]" "s\<lparr>cn := c1\<rparr>"]
    by (auto split: option.splits)
  with e1 show ?thesis by (rule evolves_trans)
next
  case EvData
  obtain st c1 where g: "GetIncomingStream sid True (cn s) = (st, c1)" by fastforce
  have e1: "evolves [] [] s (s\<lparr>cn := c1\<rparr>)" using g by (rule evolves_GetIncomingStream)
  from GetIncomingStream_Some [OF g] obtain stream where st: "st = Some stream" ..
  with assms EvData g obtain stream2 c2 where r: "recv_body_loop n Q sid stream c1 = Inr (stream2, c2)"
    and s': "s' = s\<lparr>cn := put_incoming sid stream2 c2\<rparr>"
    by (auto elim!: rbindE)
  from recv_body_loop_calls [OF r] have "evolves [] [] (s\<lparr>cn := c1\<rparr>) ((s\<lparr>cn := c1\<rparr>)\<lparr>cn := c2\<rparr>)"
    using evolves_only_calls [where s = "s\<lparr>cn := c1\<rparr>"] by auto
  then have "evolves [] [] s (s\<lparr>cn := c2\<rparr>)" using evolves_trans [OF e1] by simp
  then show ?thesis using s' evolves_put_incoming [of "[]" "s\<lparr>cn := c2\<rparr>"] evolves_trans by fastforce
next
  case EvFinished
  show ?thesis
  proof (cases "um_find sid (incoming_streams_by_id (cn s))")
    case None
    with assms EvFinished show ?thesis by simp
  next
    case (Some stream)
    let ?c = "(cn s)\<lparr>incoming_streams_by_id := um_erase sid (incoming_streams_by_id (cn s))\<rparr>"
    let ?e = "\<lparr>ev_Type = DataEvent, ev_PeerEndpoint = peer_endpoint ?c,
                       ev_ConnectionAssignedId = AssignedId ?c, ev_Stream = Some stream\<rparr>"
    from assms EvFinished Some obtain s1 where d: "on_data cb ?e (s\<lparr>cn := ?c\<rparr>) = Inr s1"
      and rest: "(if \<not> IsServer (cn s1) then
                 rbind (DestroyStream Q sid (cn s1)) (\<lambda>c. Inr (s1\<lparr>cn := c\<rparr>))
               else Inr s1) = Inr s'"
      by (auto simp: Let_def elim!: rbindE)
    have "evolves [] [] s (s\<lparr>cn := ?c\<rparr>)" by (rule evolves_incoming) (rule um_inv_erase)
    moreover have "evolves [] [] (s\<lparr>cn := ?c\<rparr>) s1" by (rule data_evolves [OF d]) simp
    ultimately have "evolves [] [] s s1" by (rule evolves_trans)
    then show ?thesis
      using rest by (auto split: if_splits elim!: rbindE dest: DestroyStream_evolves intro: evolves_trans)
  qed
next
  case EvReset
  with assms show ?thesis by (auto elim!: rbindE dest: DestroyStream_evolves)
next
  case EvGoAway
  with assms show ?thesis by (auto elim!: rbindE intro: evolves_only_calls dest: conn_close_only_calls)
qed (use assms in auto)

lemma ProcessH3Events_evolves:
  "ProcessH3Events n Q cb s = Inr s' \<Longrightarrow> evolves [] [] s s'"
proof (induction n arbitrary: s)
  case (Suc n)
  then obtain i ev c1 where p: "call_h3 (q_h3_poll Q) (cn s) = Inr ((i, ev), c1)"
    and rest: "(if i = q_err Q QUICHE_ERR_DONE \<or> i < 0 then Inr (s\<lparr>cn := c1\<rparr>)
          else rbind (handle_event n Q cb (word_of_int i) ev (s\<lparr>cn := c1\<rparr>)) (ProcessH3Events n Q cb)) = Inr s'"
    by (auto simp: Let_def elim!: rbindE)
  have e1: "evolves [] [] s (s\<lparr>cn := c1\<rparr>)" using call_h3_Inr [OF p] by (auto intro: evolves_conn)
  from rest have "evolves [] [] (s\<lparr>cn := c1\<rparr>) s'"
    by (auto split: if_splits elim!: rbindE intro: evolves_trans [OF handle_event_evolves] Suc.IH)
  with e1 show ?case by (rule evolves_trans)
qed simp

lemma datagram_established_evolves:
  assumes "datagram_established n Q cb s = Inr (go, s')"
  shows "evolves [] [] s s'"
proof (cases "http3 (cn s)")
  case True
  with assms show ?thesis
    by (auto simp: datagram_established_def elim!: rbindE dest: ProcessH3Events_evolves)
next
  case False
  with assms obtain ok c where h: "call_conn (q_h3_conn_new Q) (cn s) = Inr (ok, c)"
    and rest: "(if \<not> ok then Inr (False, s\<lparr>cn := c\<rparr>)
        else rbind (on_connect cb (AssignedId c) (peer_endpoint c) (s\<lparr>cn := c\<lparr>http3 := True\<rparr>\<rparr>)) (\<lambda>s.
             rbind (ProcessH3Events n Q cb s) (\<lambda>s. Inr (True, s)))) = Inr (go, s')"
    by (auto simp: datagram_established_def elim!: rbind_pairE)
  have e1: "evolves [] [] s (s\<lparr>cn := c\<rparr>)"
    using call_conn_Inr [OF h] by (auto intro: evolves_conn)
  have e2: "evolves [] [] (s\<lparr>cn := c\<rparr>) (s\<lparr>cn := c\<lparr>http3 := True\<rparr>\<rparr>)"
    using evolves_cn [of "c\<lparr>http3 := True\<rparr>" "s\<lparr>cn := c\<rparr>" "[]"] by simp
  show ?thesis
  proof (cases ok)
    case False
    with rest e1 show ?thesis by simp
  next
    case True
    with rest obtain s2 where oc: "on_connect cb (AssignedId c) (peer_endpoint c) (s\<lparr>cn := c\<lparr>http3 := True\<rparr>\<rparr>) = Inr s2"
      and p: "ProcessH3Events n Q cb s2 = Inr s'" by (auto elim!: rbindE)
    show ?thesis
      using e1 e2 connect_evolves [OF oc] ProcessH3Events_evolves [OF p] by (blast intro: evolves_trans)
  qed
qed

lemma datagram_end_evolves:
  assumes "datagram_end n Q F cb s = Inr s'" and "out_ok s"
  shows "evolves [] [] s s'"
  using assms
  by (auto simp: datagram_end_def split: if_splits elim!: rbindE
      intro: timeout_evolves FlushEgress_local_evolves)

lemma OnDatagram_evolves:
  assumes "OnDatagram n Q F cb data peer s = Inr s'" and "out_ok s"
  shows "evolves [] [] s s'"
proof -
  let ?s = "s\<lparr>cn := (cn s)\<lparr>peer_endpoint := peer\<rparr>\<rparr>"
  have e0: "evolves [] [] s ?s" by (rule evolves_cn [of _ _ "[]"]) simp_all
  from assms(1) obtain rc c1 where
      r: "call_conn (q_conn_recv Q data (to_sockaddr peer) (to_sockaddr (local_endpoint (hs s)))) (cn ?s) = Inr (rc, c1)"
    by (auto simp: OnDatagram_def Let_def elim!: rbind_pairE)
  have e1: "evolves [] [] s (?s\<lparr>cn := c1\<rparr>)"
    using call_conn_Inr [OF r] evolves_conn [of "[]" ?s] evolves_trans [OF e0] by fastforce
  show ?thesis
  proof (cases "rc < 0")
    case True
    with assms(1) r e1 show ?thesis by (simp add: OnDatagram_def Let_def)
  next
    case False
    with assms(1) r obtain established go s2 where
        d: "(if established then datagram_established n Q cb (?s\<lparr>cn := c1\<rparr>) else Inr (True, ?s\<lparr>cn := c1\<rparr>)) = Inr (go, s2)"
      and f: "(if go then datagram_end n Q F cb s2 else Inr s2) = Inr s'"
      by (auto simp: OnDatagram_def Let_def elim!: rbindE)
    have "evolves [] [] (?s\<lparr>cn := c1\<rparr>) s2"
      using d by (auto split: if_splits dest: datagram_established_evolves)
    then have e2: "evolves [] [] s s2" using e1 evolves_trans by blast
    show ?thesis
      using f e2 evolves_out_ok [OF e2 assms(2)]
      by (auto split: if_splits intro: evolves_trans datagram_end_evolves)
  qed
qed

lemma Connect_evolves:
  "Connect Q scid server_endpoint s = (ok, s') \<Longrightarrow> evolves [] [] s s'"
  by (auto simp: Connect_def Let_def split: option.splits intro!: evolves_cn [of _ _ "[]"])

lemma OnConnectionTimer_evolves:
  assumes "OnConnectionTimer Q scid ec s = Inr s'"
  shows "evolves [] [] s s'"
proof (cases "connection_timer (cn s)")
  case None
  with assms show ?thesis by (simp add: OnConnectionTimer_def)
next
  case (Some ep)
  let ?s = "s\<lparr>cn := (cn s)\<lparr>connection_timer := None\<rparr>\<rparr>"
  have e0: "evolves [] [] s ?s" by (rule evolves_cn [of _ _ "[]"]) simp_all
  have "evolves [] [] ?s (snd (Connect Q scid ep ?s))" by (rule Connect_evolves) (rule surjective_pairing)
  with e0 have e1: "evolves [] [] s (snd (Connect Q scid ep ?s))" by (rule evolves_trans)
  from assms Some have "s' = ?s \<or> s' = snd (Connect Q scid ep ?s)"
    by (auto simp: OnConnectionTimer_def Let_def split: if_splits elim!: rbindE)
  with e0 e1 show ?thesis by blast
qed

end

section \<open>Runs of a connection\<close>

text \<open>
  One step is one critical section: an operation of the connection (\<open>SendRequest\<close> releases
  its lock between attempts, so an attempt is a step), a poller taking the mailbox's
  contents, a send completing, or others using the same socket and mailbox (\<open>others\<close>:
  connections of the same owner, which have other ids). The second component collects what
  pollers took.
\<close>

definition others :: "'q cst \<Rightarrow> 'q cst \<Rightarrow> bool" where
  "others s s' \<longleftrightarrow> cn s' = cn s \<and>
     (\<exists>es. queued s' = queued s @ es \<and> (\<forall>e \<in> set es. ev_ConnectionAssignedId e \<noteq> AssignedId (cn s))) \<and>
     (\<forall>owned. sock_steps (owned, net (hs s)) (owned, net (hs s')))"

definition take_events :: "'q cst \<Rightarrow> event list \<times> 'q cst" where
  "take_events s = (case Poll_swap (mailbox (hs s)) of (es, mb) \<Rightarrow> (es, s\<lparr>hs := (hs s)\<lparr>mailbox := mb\<rparr>\<rparr>))"

inductive conn_step ::
    "'q quiche \<Rightarrow> freed_memory \<Rightarrow> 'q callbacks \<Rightarrow> 'q cst \<times> event list \<Rightarrow> 'q cst \<times> event list \<Rightarrow> bool"
  for Q F cb where
  conn_datagram: "OnDatagram n Q F cb data peer s = Inr s' \<Longrightarrow> conn_step Q F cb (s, d) (s', d)"
| conn_tick: "OnQuicheTimer n Q F cb ec s = Inr s' \<Longrightarrow> conn_step Q F cb (s, d) (s', d)"
| conn_retry: "OnConnectionTimer Q scid ec s = Inr s' \<Longrightarrow> conn_step Q F cb (s, d) (s', d)"
| conn_flush: "FlushEgress_local n Q F cb s = Inr (sent, s') \<Longrightarrow> conn_step Q F cb (s, d) (s', d)"
| conn_request: "SendRequest_attempt n Q F cb headers data bytes s = Inr (r, s') \<Longrightarrow> bytes < 2 ^ 31 \<Longrightarrow>
    conn_step Q F cb (s, d) (s', d)"
| conn_response: "SendResponse n Q F cb sid headers body bytes s = Inr (r, s') \<Longrightarrow> bytes < 2 ^ 31 \<Longrightarrow>
    conn_step Q F cb (s, d) (s', d)"
| conn_close: "Close Q reason (cn s) = Inr c' \<Longrightarrow> conn_step Q F cb (s, d) (s\<lparr>cn := c'\<rparr>, d)"
| conn_complete: "conn_step Q F cb (s, d) (s\<lparr>hs := (hs s)\<lparr>net := Send_complete k err (net (hs s))\<rparr>\<rparr>, d)"
| conn_poll: "take_events s = (es, s') \<Longrightarrow> conn_step Q F cb (s, d) (s', d @ es)"
| conn_others: "others s s' \<Longrightarrow> conn_step Q F cb (s, d) (s', d)"

abbreviation conn_steps ::
    "'q quiche \<Rightarrow> freed_memory \<Rightarrow> 'q callbacks \<Rightarrow> 'q cst \<times> event list \<Rightarrow> 'q cst \<times> event list \<Rightarrow> bool" where
  "conn_steps Q F cb \<equiv> rtranclp (conn_step Q F cb)"

definition conn_inv :: "u64 \<Rightarrow> 'q cst \<times> event list \<Rightarrow> bool" where
  "conn_inv i sd \<longleftrightarrow> (case sd of (s, d) \<Rightarrow>
     AssignedId (cn s) = i \<and> out_ok s \<and> um_inv (incoming_streams_by_id (cn s)) \<and>
     timeouts i (d @ queued s) = of_bool (timed_out (cn s)) \<and>
     (connected (cn s) \<or> (\<forall>e \<in> set (d @ queued s). ev_ConnectionAssignedId e = i \<longrightarrow> ev_Type e = TimeoutEvent)) \<and>
     sock_inv [] (net (hs s)))"

lemma timeouts_none: "\<forall>e \<in> set es. ev_ConnectionAssignedId e \<noteq> i \<Longrightarrow> timeouts i es = 0"
  by (auto simp: timeouts_def filter_empty_conv)

lemma conn_inv_out_ok: "conn_inv i (s, d) \<Longrightarrow> out_ok s"
  by (simp add: conn_inv_def)

lemma conn_inv_evolves:
  assumes "evolves [] [] s s'" and "conn_inv i (s, d)"
  shows "conn_inv i (s', d)"
proof -
  from assms obtain es where q: "queued s' = queued s @ es"
    and t: "timeouts i es + of_bool (timed_out (cn s)) = of_bool (timed_out (cn s'))"
    and o: "connected (cn s') \<or> only_timeouts es" and mono: "connected (cn s) \<longrightarrow> connected (cn s')"
    by (auto simp: evolves_def conn_inv_def)
  have t': "timeouts i (d @ queued s') = of_bool (timed_out (cn s'))"
    using q t assms(2) by (simp add: conn_inv_def)
  have o': "connected (cn s') \<or> (\<forall>e \<in> set (d @ queued s'). ev_ConnectionAssignedId e = i \<longrightarrow> ev_Type e = TimeoutEvent)"
    using q o mono assms(2) by (auto simp: conn_inv_def only_timeouts_def)
  have "sock_inv [] (net (hs s'))"
    using evolves_sock [OF assms(1), of "[]"] assms(2) by (simp add: conn_inv_def)
  with t' o' show ?thesis using assms by (simp add: conn_inv_def evolves_def)
qed

lemma take_events_spec:
  "take_events s = (es, s') \<Longrightarrow> cn s' = cn s \<and> net (hs s') = net (hs s) \<and> es @ queued s' = queued s"
  by (auto simp: take_events_def Poll_swap_def split: if_splits)

lemma others_evolves_inv:
  assumes "others s s'" and "conn_inv i (s, d)"
  shows "conn_inv i (s', d)"
proof -
  have st: "sock_steps ([], net (hs s)) ([], net (hs s'))" using assms(1) by (simp add: others_def)
  have "sock_inv [] (net (hs s'))"
    using sock_steps_inv [OF st] assms(2) by (simp add: conn_inv_def)
  moreover from assms obtain es where "queued s' = queued s @ es" "\<forall>e \<in> set es. ev_ConnectionAssignedId e \<noteq> i"
    and "cn s' = cn s" by (auto simp: others_def conn_inv_def)
  ultimately show ?thesis using assms(2) timeouts_none [of es i] by (auto simp: conn_inv_def)
qed

context conn_owner
begin

lemma conn_step_inv:
  assumes "conn_step Q F cb sd sd'" and "conn_inv i sd"
  shows "conn_inv i sd'"
  using assms
proof (induction rule: conn_step.induct)
  case (conn_complete s d k err)
  then show ?case using Send_complete_inv [of "[]" "net (hs s)" k err] by (simp add: conn_inv_def)
next
  case (conn_poll s es s' d)
  from take_events_spec [OF conn_poll(1)] have "cn s' = cn s" "net (hs s') = net (hs s)"
    and "queued s = es @ queued s'" by simp_all
  with conn_poll(2) show ?case by (auto simp: conn_inv_def)
next
  case (conn_close reason s c' d)
  then show ?case by (blast intro: conn_inv_evolves evolves_quiet Close_quiet)
next
  case (conn_others s s' d)
  then show ?case by (rule others_evolves_inv)
next
  case (conn_datagram n data peer s s' d)
  then show ?case by (blast intro: conn_inv_evolves OnDatagram_evolves conn_inv_out_ok)
next
  case (conn_tick n ec s s' d)
  then show ?case by (blast intro: conn_inv_evolves OnQuicheTimer_evolves conn_inv_out_ok)
next
  case (conn_retry scid ec s s' d)
  then show ?case using OnConnectionTimer_evolves conn_inv_evolves by blast
next
  case (conn_flush n s sent s' d)
  then show ?case by (blast intro: conn_inv_evolves FlushEgress_local_evolves conn_inv_out_ok)
next
  case (conn_request n headers data bytes s r s' d)
  then show ?case by (blast intro: conn_inv_evolves SendRequest_attempt_evolves conn_inv_out_ok)
next
  case (conn_response n sid headers body bytes s r s' d)
  then show ?case by (blast intro: conn_inv_evolves SendResponse_evolves conn_inv_out_ok)
qed

lemma conn_steps_inv: "conn_steps Q F cb sd sd' \<Longrightarrow> conn_inv i sd \<Longrightarrow> conn_inv i sd'"
  by (induction rule: rtranclp_induct) (auto intro: conn_step_inv)

lemma at_most_one_timeout:
  assumes "conn_steps Q F cb (s, []) (s', d)" and "conn_inv i (s, [])"
  shows "timeouts i (d @ queued s') \<le> 1"
  using conn_steps_inv [OF assms] by (cases "timed_out (cn s')") (simp_all add: conn_inv_def)

end

end
