(* ===== verification/QS_SendSpec.thy ===== *)
theory QS_SendSpec
  imports QS_ConnInv
begin

text \<open>
  The whole of a flush and of \<open>SendBody\<close> in terms of accepted and pending bytes, for every
  owner that keeps the contract.
\<close>

lemma fin_taken_other: "\<forall>x \<in> set cs. call_stream x \<noteq> Some k \<Longrightarrow> \<not> fin_taken k cs"
  by (auto simp: fin_taken_def)

abbreviation out_keys :: "'q cst \<Rightarrow> u64 set" where
  "out_keys s \<equiv> fst ` set (outgoing_streams_by_id (cn s))"

text \<open>\<open>moved k cs s s'\<close>: with the calls \<open>cs\<close>, bytes of stream \<open>k\<close> moved from the queue to quiche.\<close>

definition moved :: "u64 \<Rightarrow> qcall list \<Rightarrow> 'q cst \<Rightarrow> 'q cst \<Rightarrow> bool" where
  "moved k cs s s' \<longleftrightarrow> calls (cn s') = calls (cn s) @ cs \<and>
     accepted k cs @ pending k (outgoing_streams_by_id (cn s')) = pending k (outgoing_streams_by_id (cn s)) \<and>
     (fin_taken k cs \<longleftrightarrow> k \<in> out_keys s \<and> k \<notin> out_keys s')"

text \<open>The bytes of a body, split into what quiche accepted and what is queued, and its FIN.\<close>

definition body_accounted :: "u64 \<Rightarrow> bytes \<Rightarrow> bool \<Rightarrow> 'q cst \<Rightarrow> 'q cst \<Rightarrow> bool" where
  "body_accounted sid body ok s s' \<longleftrightarrow> (\<exists>cs. calls (cn s') = calls (cn s) @ cs \<and>
     accepted sid cs @ pending sid (outgoing_streams_by_id (cn s')) = body \<and>
     (if ok then fin_taken sid cs \<or> sid \<in> out_keys s'
      else \<not> fin_taken sid cs \<and> sid \<notin> out_keys s' \<and> (\<exists>r < 0. CallBody sid [] True r \<in> set cs)))"

context conn_owner
begin

lemma TickTimeout_frame:
  assumes "TickTimeout Q cb s = Inr s'"
  shows "calls (cn s') = calls (cn s) \<and> outgoing_streams_by_id (cn s') = outgoing_streams_by_id (cn s)"
proof -
  from assms show ?thesis
    by (cases rule: TickTimeout_cases) (auto dest: timeout_cb_conn)
qed

lemma FlushEgress_local_moved:
  assumes "FlushEgress_local n Q F cb s = Inr (sent, s')" and "out_ok s"
  shows "\<exists>cs. \<forall>k. k \<notin> cached_ids (response_cache (cn s)) \<longrightarrow> moved k cs s s'"
proof -
  from assms(1) obtain b s1 where f: "FlushEgress n Q F cb None s = Inr ((sent, b), s1)"
    and s': "cn s' = cn s1"
    by (auto simp: FlushEgress_local_def elim!: rbindE)
  from f obtain c1 c2 finished s3 where 1: "FlushCachedResponses Q F (cn s) = Inr c1"
    and 2: "FlushTransfers Q c1 = Inr c2"
    and 3: "egress_loop n Q None False (s\<lparr>cn := c2\<rparr>) = Inr ((finished, sent, b), s3)"
    and 4: "if finished then TickTimeout Q cb s3 = Inr s1 else s1 = s3"
    by (rule FlushEgress_parts)
  from FlushCachedResponses_spec [OF 1] obtain cs1 d1 rc where oc1: "only_calls (cn s) cs1 d1"
    and c1: "c1 = d1\<lparr>response_cache := rc\<rparr>"
    and o1: "\<forall>x \<in> set cs1. \<exists>k \<in> cached_ids (response_cache (cn s)). call_stream x = Some k" by blast
  have out1: "outgoing_streams_by_id c1 = outgoing_streams_by_id (cn s)" "calls c1 = calls (cn s) @ cs1"
    using only_calls_frame [OF oc1] by (simp_all add: c1)
  have ok1: "outgoing_ok (outgoing_streams_by_id c1)" using assms(2) by (simp add: out1)
  from FlushTransfers_spec [OF 2 ok1] obtain cs2 d2 m where oc2: "only_calls c1 cs2 d2"
    and c2: "c2 = d2\<lparr>outgoing_streams_by_id := m\<rparr>"
    and f2: "flush_spec (outgoing_streams_by_id c1) (outgoing_streams_by_id c2) cs2" by blast
  have calls2: "calls c2 = calls (cn s) @ cs1 @ cs2" using only_calls_frame(1) [OF oc2] by (simp add: c2 out1)
  have e3: "calls (cn s3) = calls c2" "outgoing_streams_by_id (cn s3) = outgoing_streams_by_id c2"
    using egress_loop_spec [OF 3] by auto
  have e4: "calls (cn s1) = calls c2" "outgoing_streams_by_id (cn s1) = outgoing_streams_by_id c2"
    using 4 e3 by (auto split: if_splits dest: TickTimeout_frame)
  have "moved k (cs1 @ cs2) s s'" if "k \<notin> cached_ids (response_cache (cn s))" for k
  proof -
    have "\<forall>x \<in> set cs1. call_stream x \<noteq> Some k" using o1 that by auto
    then have "accepted k cs1 = []" "\<not> fin_taken k cs1" by (rule accepted_other, intro fin_taken_other)
    then show ?thesis
      using f2 by (auto simp: moved_def flush_spec_def s' e4 calls2 out1 fin_taken_append)
  qed
  then show ?thesis by blast
qed

lemma queue_body_frame:
  "calls (queue_body sid rest c) = calls c" "response_cache (queue_body sid rest c) = response_cache c"
  "pending sid (outgoing_streams_by_id (queue_body sid rest c)) = rest"
  "sid \<in> fst ` set (outgoing_streams_by_id (queue_body sid rest c))"
proof -
  have f: "um_find sid (outgoing_streams_by_id (queue_body sid rest c)) =
      Some ((case um_find sid (outgoing_streams_by_id c) of Some st \<Rightarrow> st | None \<Rightarrow> new_outgoing_stream sid)
        \<lparr>SendOffset := 0, out_Buffer := rest\<rparr>)"
    by (simp add: queue_body_eq um_find_put)
  show "calls (queue_body sid rest c) = calls c" "response_cache (queue_body sid rest c) = response_cache c"
    by (simp_all add: queue_body_eq)
  show "pending sid (outgoing_streams_by_id (queue_body sid rest c)) = rest"
    by (simp add: pending_def f unsent_def)
  show "sid \<in> fst ` set (outgoing_streams_by_id (queue_body sid rest c))"
    using um_find_Some_in [OF f] by force
qed

text \<open>
  \<open>SendBody\<close> for a stream with nothing queued or cached: whether it reports success or not,
  the body is exactly what was accepted and what is queued now. On success the FIN was
  accepted or the stream is still queued; on failure the FIN was refused and forgotten.
\<close>

lemma SendBody_accounted:
  assumes ok: "SendBody n Q F cb sid data bytes s = Inr (ok, s')" and oo: "out_ok s"
    and pos: "0 < bytes" "bytes < 2 ^ 31"
    and new: "sid \<notin> out_keys s" "sid \<notin> cached_ids (response_cache (cn s))"
  shows "body_accounted sid (take (nat bytes) data) ok s s'"
proof -
  let ?body = "take (nat bytes) data"
  from ok pos obtain rc c1 where b: "h3_send_body Q sid ?body False (cn s) = Inr (rc, c1)"
    and rest: "(let rc = (if rc < 0 then 0 else rc)
         in if rc < bytes then
              rbind (FlushEgress_local n Q F cb (s\<lparr>cn := queue_body sid (drop (nat rc) ?body) c1\<rparr>))
                (\<lambda>(_, s). Inr (True, s))
            else
              rbind (h3_send_body Q sid [] True c1) (\<lambda>(rc, c).
                if rc < 0 then Inr (False, s\<lparr>cn := c\<rparr>)
                else rbind (FlushEgress_local n Q F cb (s\<lparr>cn := c\<rparr>)) (\<lambda>(_, s). Inr (True, s)))) = Inr (ok, s')"
    by (auto simp: SendBody_def elim!: rbindE)
  define r where "r = (if rc < 0 then 0 else rc)"
  note fr = only_calls_frame [OF h3_send_body_only_calls [OF b]]
  have acc: "accepted sid [CallBody sid ?body False rc] = take (nat r) ?body" by (simp add: r_def)
  show ?thesis
  proof (cases "r < bytes")
    case True
    let ?s = "s\<lparr>cn := queue_body sid (drop (nat r) ?body) c1\<rparr>"
    from True rest obtain x where fl: "FlushEgress_local n Q F cb ?s = Inr (x, s')" and ok': "ok"
      by (auto simp: r_def Let_def elim!: rbindE split: if_splits)
    have "length (drop (nat r) ?body) < 2 ^ 31" using pos by (auto simp: less_diff_conv)
    then have "out_ok ?s" using oo fr(2) by (simp add: queue_body_ok)
    from FlushEgress_local_moved [OF fl this] obtain cs where m: "moved sid cs ?s s'"
      using new(2) fr(4) by (auto simp: queue_body_frame)
    then have "accepted sid cs @ pending sid (outgoing_streams_by_id (cn s')) = drop (nat r) ?body"
      and calls: "calls (cn s') = calls (cn s) @ [CallBody sid ?body False rc] @ cs"
      and fin: "fin_taken sid cs \<or> sid \<in> out_keys s'"
      using fr(1) by (auto simp: moved_def queue_body_frame)
    moreover from this(1) have "accepted sid ([CallBody sid ?body False rc] @ cs) @
        pending sid (outgoing_streams_by_id (cn s')) = ?body"
      by (simp only: accepted_append acc append_assoc append_take_drop_id)
    moreover have "fin_taken sid ([CallBody sid ?body False rc] @ cs) \<or> sid \<in> out_keys s'"
      using fin by (auto simp: fin_taken_def)
    ultimately show ?thesis
      unfolding body_accounted_def by (intro exI [of _ "[CallBody sid ?body False rc] @ cs"]) (simp add: ok')
  next
    case False
    from False rest obtain r2 c2 where f: "h3_send_body Q sid [] True c1 = Inr (r2, c2)"
      and rest2: "(if r2 < 0 then Inr (False, s\<lparr>cn := c2\<rparr>)
                else rbind (FlushEgress_local n Q F cb (s\<lparr>cn := c2\<rparr>)) (\<lambda>(_, s). Inr (True, s))) = Inr (ok, s')"
      by (auto simp: Let_def r_def elim!: rbind_pairE)
    note fr2 = only_calls_frame [OF h3_send_body_only_calls [OF f]]
    let ?cs = "[CallBody sid ?body False rc, CallBody sid [] True r2]"
    have calls2: "calls c2 = calls (cn s) @ ?cs" using fr(1) fr2(1) by simp
    have all: "accepted sid ?cs = ?body" using False acc by (simp add: r_def split: if_splits)
    have none: "pending sid (outgoing_streams_by_id c2) = []" "sid \<notin> fst ` set (outgoing_streams_by_id c2)"
      using new(1) fr(2) fr2(2) by (simp_all add: pending_not_in)
    show ?thesis
    proof (cases "r2 < 0")
      case True
      with rest2 have "\<not> ok" "s' = s\<lparr>cn := c2\<rparr>" by simp_all
      with True all none calls2 show ?thesis
        unfolding body_accounted_def by (intro exI [of _ ?cs]) (auto simp: fin_taken_def)
    next
      case nf: False
      with rest2 obtain x where fl: "FlushEgress_local n Q F cb (s\<lparr>cn := c2\<rparr>) = Inr (x, s')" and ok': "ok"
        by (auto elim!: rbindE)
      have "out_ok (s\<lparr>cn := c2\<rparr>)" using oo fr(2) fr2(2) by simp
      from FlushEgress_local_moved [OF fl this] obtain cs where m: "moved sid cs (s\<lparr>cn := c2\<rparr>) s'"
        using new(2) fr(4) fr2(4) by auto
      then have "accepted sid (?cs @ cs) @ pending sid (outgoing_streams_by_id (cn s')) = ?body"
        using all none(1) by (simp add: moved_def)
      moreover have "fin_taken sid (?cs @ cs)"
        using nf unfolding fin_taken_def by (intro exI [of _ "[]"] exI [of _ r2]) simp
      moreover have "calls (cn s') = calls (cn s) @ ?cs @ cs" using m calls2 by (simp add: moved_def)
      ultimately show ?thesis
        unfolding body_accounted_def by (intro exI [of _ "?cs @ cs"]) (simp add: ok')
    qed
  qed
qed

end

end
