(* ===== verification/QS_Receive.thy ===== *)
theory QS_Receive
  imports QS_ConnRun QS_SendSpec
begin

text \<open>
  Reassembly. \<open>rx_run\<close> is what a connection promises of the events it polls: headers and
  body data are collected per stream, a finished stream is handed over once and forgotten,
  a reset stream is forgotten. \<open>ProcessH3Events\<close> refines it, and what it hands to the owner
  holds exactly the bytes quiche delivered for the stream.
\<close>

section \<open>The specification\<close>

datatype rx = RxHeaders "header list" | RxBody bytes | RxFinished | RxReset

type_synonym inbox = "u64 \<Rightarrow> incoming_stream option"

definition rx_stream :: "u64 \<Rightarrow> inbox \<Rightarrow> incoming_stream" where
  "rx_stream i m = (case m i of Some st \<Rightarrow> st | None \<Rightarrow> new_incoming_stream i)"

definition add_headers :: "header list \<Rightarrow> incoming_stream \<Rightarrow> incoming_stream" where
  "add_headers hdrs st = fold (\<lambda>(name, val). OnHeader name val) hdrs st"

fun rx_step :: "u64 \<times> rx \<Rightarrow> inbox \<Rightarrow> inbox \<times> incoming_stream list" where
  "rx_step (i, RxHeaders hdrs) m = (m(i \<mapsto> add_headers hdrs (rx_stream i m)), [])"
| "rx_step (i, RxBody data) m = (m(i \<mapsto> OnData data (rx_stream i m)), [])"
| "rx_step (i, RxFinished) m = (case m i of None \<Rightarrow> (m, []) | Some st \<Rightarrow> (m(i := None), [st]))"
| "rx_step (i, RxReset) m = (m(i := None), [])"

fun rx_run :: "(u64 \<times> rx) list \<Rightarrow> inbox \<Rightarrow> inbox \<times> incoming_stream list" where
  "rx_run [] m = (m, [])"
| "rx_run (x # xs) m = (case rx_step x m of (m1, out1) \<Rightarrow> case rx_run xs m1 of (m2, out2) \<Rightarrow> (m2, out1 @ out2))"

lemma rx_run_append:
  "rx_run (xs @ ys) m = (case rx_run xs m of (m1, out1) \<Rightarrow> case rx_run ys m1 of (m2, out2) \<Rightarrow> (m2, out1 @ out2))"
  by (induction xs arbitrary: m) (simp_all split: prod.splits)

fun rx_data :: "u64 \<Rightarrow> u64 \<times> rx \<Rightarrow> bytes" where
  "rx_data k (i, RxBody data) = (if i = k then data else [])"
| "rx_data k _ = []"

definition rx_body :: "u64 \<Rightarrow> (u64 \<times> rx) list \<Rightarrow> bytes" where
  "rx_body k xs = concat (map (rx_data k) xs)"

lemma rx_body_simps [simp]:
  "rx_body k [] = []" "rx_body k (x # xs) = rx_data k x @ rx_body k xs"
  "rx_body k (xs @ ys) = rx_body k xs @ rx_body k ys"
  by (simp_all add: rx_body_def)

section \<open>What the specification delivers\<close>

definition inbox_body :: "u64 \<Rightarrow> inbox \<Rightarrow> bytes" where
  "inbox_body k m = (case m k of Some st \<Rightarrow> in_Buffer st | None \<Rightarrow> [])"

lemma add_headers_frame [simp]:
  "in_Buffer (add_headers hdrs st) = in_Buffer st" "in_Id (add_headers hdrs st) = in_Id st"
proof -
  have "in_Buffer (OnHeader name val st) = in_Buffer st \<and> in_Id (OnHeader name val st) = in_Id st" for name val st
    by (simp add: OnHeader_def)
  then have "in_Buffer (add_headers hdrs st) = in_Buffer st \<and> in_Id (add_headers hdrs st) = in_Id st"
    unfolding add_headers_def by (induction hdrs arbitrary: st) auto
  then show "in_Buffer (add_headers hdrs st) = in_Buffer st" "in_Id (add_headers hdrs st) = in_Id st"
    by simp_all
qed

lemma OnData_frame [simp]: "in_Buffer (OnData data st) = in_Buffer st @ data" "in_Id (OnData data st) = in_Id st"
  by (simp_all add: OnData_def)

definition inbox_ids :: "inbox \<Rightarrow> bool" where
  "inbox_ids m \<longleftrightarrow> (\<forall>k st. m k = Some st \<longrightarrow> in_Id st = k)"

lemma rx_stream_simps [simp]:
  "inbox_ids m \<Longrightarrow> in_Id (rx_stream i m) = i" "in_Buffer (rx_stream i m) = inbox_body i m"
  by (simp_all add: rx_stream_def inbox_body_def inbox_ids_def new_incoming_stream_def split: option.splits)

text \<open>The bytes handed over for stream \<open>k\<close>, in order, and the bytes thrown away by resets.\<close>

definition out_body :: "u64 \<Rightarrow> incoming_stream list \<Rightarrow> bytes" where
  "out_body k outs = concat (map (\<lambda>st. if in_Id st = k then in_Buffer st else []) outs)"

lemma out_body_simps [simp]:
  "out_body k [] = []" "out_body k (xs @ ys) = out_body k xs @ out_body k ys"
  "out_body k [st] = (if in_Id st = k then in_Buffer st else [])"
  by (simp_all add: out_body_def)

lemma rx_step_body:
  assumes "rx_step x m = (m', outs)" and "inbox_ids m" and "x \<noteq> (k, RxReset)"
  shows "out_body k outs @ inbox_body k m' = inbox_body k m @ rx_data k x" and "inbox_ids m'"
proof -
  obtain i r where x: "x = (i, r)" by (cases x)
  have "out_body k outs @ inbox_body k m' = inbox_body k m @ rx_data k x \<and> inbox_ids m'"
    using assms x
    by (cases r; cases "m i") (auto simp: inbox_body_def inbox_ids_def rx_stream_def new_incoming_stream_def split: if_splits)
  then show "out_body k outs @ inbox_body k m' = inbox_body k m @ rx_data k x" and "inbox_ids m'" by simp_all
qed

lemma rx_step_ids: "rx_step x m = (m', outs) \<Longrightarrow> inbox_ids m \<Longrightarrow> inbox_ids m'"
  by (cases x; cases "snd x") (auto simp: inbox_ids_def rx_stream_def new_incoming_stream_def split: option.splits if_splits)

lemma rx_run_body:
  "rx_run xs m = (m', outs) \<Longrightarrow> inbox_ids m \<Longrightarrow> (k, RxReset) \<notin> set xs \<Longrightarrow>
   out_body k outs @ inbox_body k m' = inbox_body k m @ rx_body k xs"
proof (induction xs arbitrary: m outs)
  case (Cons x xs)
  obtain m1 out1 where 1: "rx_step x m = (m1, out1)" by (cases "rx_step x m")
  obtain m2 out2 where 2: "rx_run xs m1 = (m2, out2)" by (cases "rx_run xs m1")
  from Cons.prems 1 2 have "m' = m2" "outs = out1 @ out2" by simp_all
  with rx_step_body [OF 1 Cons.prems(2), of k] Cons.IH [OF _ rx_step_ids [OF 1 Cons.prems(2)]] Cons.prems(3) 2
  show ?case by (auto simp flip: append_assoc) (simp add: append_assoc)
qed simp

text \<open>The last occurrence of a header wins; other headers change nothing.\<close>

definition header_value :: "string \<Rightarrow> header list \<Rightarrow> string \<Rightarrow> string" where
  "header_value name hdrs old = (case map_of (rev hdrs) name of Some v \<Rightarrow> v | None \<Rightarrow> old)"

lemma header_value_simps [simp]:
  "header_value name [] old = old"
  "header_value name ((n, v) # hdrs) old = header_value name hdrs (if n = name then v else old)"
  by (auto simp: header_value_def map_add_def split: option.splits)

lemma add_headers_value:
  "Method (add_headers hdrs st) = header_value '':method'' hdrs (Method st) \<and>
   Path (add_headers hdrs st) = header_value '':path'' hdrs (Path st) \<and>
   Status (add_headers hdrs st) = header_value '':status'' hdrs (Status st) \<and>
   Authorization (add_headers hdrs st) = header_value ''Authorization'' hdrs (Authorization st) \<and>
   ContentType (add_headers hdrs st) = header_value ''content-type'' hdrs (ContentType st) \<and>
   HeaderInfo (add_headers hdrs st) = header_value QUICSEND_HEADER_INFO hdrs (HeaderInfo st)"
proof (induction hdrs arbitrary: st)
  case (Cons h hdrs)
  obtain n v where h: "h = (n, v)" by (cases h)
  have *: "add_headers (h # hdrs) st = add_headers hdrs (OnHeader n v st)"
    by (simp add: add_headers_def h)
  show ?case
    unfolding * using Cons.IH [of "OnHeader n v st"] by (simp add: h OnHeader_def QUICSEND_HEADER_INFO_def)
qed (simp add: add_headers_def)

section \<open>The connection refines it\<close>

abbreviation inbox :: "'q cst \<Rightarrow> inbox" where
  "inbox s \<equiv> (\<lambda>k. um_find k (incoming_streams_by_id (cn s)))"

text \<open>The body data \<open>quiche_h3_recv_body\<close> returned for stream \<open>k\<close>.\<close>

fun received_call :: "u64 \<Rightarrow> qcall \<Rightarrow> bytes" where
  "received_call k (CallRecv sid len data) = (if sid = k \<and> 0 < len then take (nat len) data else [])"
| "received_call k _ = []"

definition received :: "u64 \<Rightarrow> qcall list \<Rightarrow> bytes" where
  "received k cs = concat (map (received_call k) cs)"

lemma received_simps [simp]:
  "received k [] = []" "received k (x # xs) = received_call k x @ received k xs"
  "received k (xs @ ys) = received k xs @ received k ys"
  by (simp_all add: received_def)

lemma received_none: "\<forall>x \<in> set cs. call_stream x = None \<Longrightarrow> received k cs = []"
proof (induction cs)
  case (Cons x cs)
  then show ?case by (cases x) auto
qed simp

text \<open>
  One DATA event: the loop appends what it received, call by call, to the stream, and it
  concerns that stream only.
\<close>

lemma recv_body_loop_spec:
  "recv_body_loop n Q sid stream c = Inr (stream', c') \<Longrightarrow> q_err Q QUICHE_ERR_DONE < 0 \<Longrightarrow>
   \<exists>cs. only_calls c cs c' \<and> stream' = OnData (received sid cs) stream \<and>
     (\<forall>k. k \<noteq> sid \<longrightarrow> received k cs = [])"
proof (induction n arbitrary: stream c)
  case (Suc n)
  then obtain len buffer c1 where r: "h3_recv_body Q sid body_buf_size c = Inr ((len, buffer), c1)"
    and rest: "(if len = q_err Q QUICHE_ERR_DONE \<or> len = 0 then Inr (stream, c1)
       else if len > 0 then recv_body_loop n Q sid (OnData (take (nat len) buffer) stream) c1
       else recv_body_loop n Q sid stream c1) = Inr (stream', c')"
    by (auto elim!: rbindE)
  note oc = h3_recv_body_only_calls [OF r]
  have nil: "OnData [] st = st" for st by (simp add: OnData_def)
  show ?case
  proof (cases "len = q_err Q QUICHE_ERR_DONE \<or> len = 0")
    case True
    with rest Suc.prems(2) oc nil show ?thesis
      by (intro exI [of _ "[CallRecv sid len buffer]"]) auto
  next
    case False
    let ?st = "if len > 0 then OnData (take (nat len) buffer) stream else stream"
    from False rest have "recv_body_loop n Q sid ?st c1 = Inr (stream', c')" by (auto split: if_splits)
    from Suc.IH [OF this Suc.prems(2)] obtain cs where "only_calls c1 cs c'"
      and "stream' = OnData (received sid cs) ?st" "\<forall>k. k \<noteq> sid \<longrightarrow> received k cs = []" by blast
    with only_calls_trans [OF oc, of cs c'] nil show ?thesis
      by (intro exI [of _ "[CallRecv sid len buffer] @ cs"]) (auto simp: OnData_def)
  qed
qed simp

text \<open>The event for a finished stream.\<close>

definition data_event :: "'q qconn \<Rightarrow> incoming_stream \<Rightarrow> event" where
  "data_event c st = \<lparr>ev_Type = DataEvent, ev_PeerEndpoint = peer_endpoint c,
                      ev_ConnectionAssignedId = AssignedId c, ev_Stream = Some st\<rparr>"

text \<open>\<open>refines inp s s'\<close>: on a connected connection, polling amounts to the input \<open>inp\<close>.\<close>

definition refines :: "(u64 \<times> rx) list \<Rightarrow> 'q cst \<Rightarrow> 'q cst \<Rightarrow> bool" where
  "refines inp s s' \<longleftrightarrow>
     (\<exists>outs cs. rx_run inp (inbox s) = (inbox s', outs) \<and>
        queued s' = queued s @ map (data_event (cn s)) outs \<and>
        calls (cn s') = calls (cn s) @ cs \<and> (\<forall>k. received k cs = rx_body k inp)) \<and>
     connected (cn s') = connected (cn s) \<and> peer_endpoint (cn s') = peer_endpoint (cn s) \<and>
     AssignedId (cn s') = AssignedId (cn s)"

lemma refinesI:
  assumes "rx_run inp (inbox s) = (inbox s', outs)" and "\<And>k. received k cs = rx_body k inp"
    and "queued s' = queued s @ map (data_event (cn s)) outs" and "calls (cn s') = calls (cn s) @ cs"
    and "connected (cn s') = connected (cn s)" and "peer_endpoint (cn s') = peer_endpoint (cn s)"
    and "AssignedId (cn s') = AssignedId (cn s)"
  shows "refines inp s s'"
  using assms unfolding refines_def by blast

lemma data_event_cong:
  "peer_endpoint c' = peer_endpoint c \<Longrightarrow> AssignedId c' = AssignedId c \<Longrightarrow> data_event c' = data_event c"
  by (simp add: data_event_def fun_eq_iff)

lemma refines_trans:
  assumes "refines xs s s1" and "refines ys s1 s2"
  shows "refines (xs @ ys) s s2"
proof -
  from assms(1) obtain out1 cs1 where 1: "rx_run xs (inbox s) = (inbox s1, out1)"
    "queued s1 = queued s @ map (data_event (cn s)) out1" "calls (cn s1) = calls (cn s) @ cs1"
    "\<forall>k. received k cs1 = rx_body k xs" unfolding refines_def by blast
  from assms(2) obtain out2 cs2 where 2: "rx_run ys (inbox s1) = (inbox s2, out2)"
    "queued s2 = queued s1 @ map (data_event (cn s1)) out2" "calls (cn s2) = calls (cn s1) @ cs2"
    "\<forall>k. received k cs2 = rx_body k ys" unfolding refines_def by blast
  have f: "connected (cn s2) = connected (cn s)" "peer_endpoint (cn s2) = peer_endpoint (cn s)"
    "AssignedId (cn s2) = AssignedId (cn s)" "peer_endpoint (cn s1) = peer_endpoint (cn s)"
    "AssignedId (cn s1) = AssignedId (cn s)"
    using assms by (simp_all add: refines_def)
  from f(4,5) have "data_event (cn s1) = data_event (cn s)" by (rule data_event_cong)
  with 1 2 f(1-3) show ?thesis
    unfolding refines_def
    by (intro conjI exI [of _ "out1 @ out2"] exI [of _ "cs1 @ cs2"]) (simp_all add: rx_run_append)
qed

lemma refines_calls:
  assumes "only_calls (cn s) cs c'" and "\<forall>k. received k cs = []" and "connected c' = connected (cn s)"
  shows "refines [] s (s\<lparr>cn := c'\<rparr>)"
  using assms only_calls_frame [OF assms(1)] unfolding refines_def
  by (intro conjI exI [of _ "[]"] exI [of _ cs]) simp_all

lemma GetIncomingStream_rx:
  assumes "GetIncomingStream sid True c = (Some st, c')"
  shows "st = rx_stream sid (\<lambda>k. um_find k (incoming_streams_by_id c))"
    and "um_find k (incoming_streams_by_id c') =
      (if k = sid then Some st else um_find k (incoming_streams_by_id c))"
    and "\<exists>m. c' = c\<lparr>incoming_streams_by_id := m\<rparr>"
proof -
  have "st = rx_stream sid (\<lambda>k. um_find k (incoming_streams_by_id c)) \<and>
      um_find k (incoming_streams_by_id c') = (if k = sid then Some st else um_find k (incoming_streams_by_id c)) \<and>
      (\<exists>m. c' = c\<lparr>incoming_streams_by_id := m\<rparr>)"
  proof (cases "um_find sid (incoming_streams_by_id c)")
    case None
    with assms show ?thesis
      by (auto simp: GetIncomingStream_create rx_stream_def put_incoming_def um_find_put)
  next
    case (Some st0)
    with assms have "c' = c" "st = st0" by (simp_all add: GetIncomingStream_create)
    moreover have "\<exists>m. c = c\<lparr>incoming_streams_by_id := m\<rparr>"
      by (rule exI [of _ "incoming_streams_by_id c"]) simp
    ultimately show ?thesis using Some by (simp add: rx_stream_def)
  qed
  then show "st = rx_stream sid (\<lambda>k. um_find k (incoming_streams_by_id c))"
    and "um_find k (incoming_streams_by_id c') =
      (if k = sid then Some st else um_find k (incoming_streams_by_id c))"
    and "\<exists>m. c' = c\<lparr>incoming_streams_by_id := m\<rparr>" by blast+
qed

lemma DestroyStream_refines:
  assumes "DestroyStream Q sid (cn s) = Inr c'"
  shows "refines [(sid, RxReset)] s (s\<lparr>cn := c'\<rparr>)"
proof -
  from DestroyStream_spec [OF assms] obtain c1 where
      oc: "only_calls (cn s) [CallShutdown sid ShutdownRead, CallShutdown sid ShutdownWrite] c1"
    and c': "c' = c1\<lparr>incoming_streams_by_id := um_erase sid (incoming_streams_by_id (cn s)),
             outgoing_streams_by_id := um_erase sid (outgoing_streams_by_id (cn s))\<rparr>" by blast
  have "(\<lambda>k. um_find k (incoming_streams_by_id c')) = (inbox s)(sid := None)"
    by (auto simp: c' um_find_erase)
  with only_calls_frame [OF oc] c' show ?thesis
    unfolding refines_def
    by (intro conjI exI [of _ "[]"] exI [of _ "[CallShutdown sid ShutdownRead, CallShutdown sid ShutdownWrite]"]) simp_all
qed

text \<open>Forgetting a stream that is not there changes nothing: the client's \<open>DestroyStream\<close> after FINISHED.\<close>

lemma refines_reset_drop:
  "refines [(sid, RxReset)] s s' \<Longrightarrow> inbox s sid = None \<Longrightarrow> refines [] s s'"
  by (auto simp: refines_def fun_upd_idem)

text \<open>The input a polled event amounts to; \<open>data\<close> is what was read for a DATA event.\<close>

fun rx_of :: "u64 \<times> h3_event \<times> bytes \<Rightarrow> (u64 \<times> rx) list" where
  "rx_of (i, EvHeaders hdrs, data) = [(i, RxHeaders hdrs)]"
| "rx_of (i, EvData, data) = [(i, RxBody data)]"
| "rx_of (i, EvFinished, data) = [(i, RxFinished)]"
| "rx_of (i, EvReset, data) = [(i, RxReset)]"
| "rx_of (i, _, data) = []"

text \<open>The calls to quiche made between two states.\<close>

definition new_calls :: "'q cst \<Rightarrow> 'q cst \<Rightarrow> qcall list" where
  "new_calls s s' = drop (length (calls (cn s))) (calls (cn s'))"

lemma new_calls_eq: "calls (cn s') = calls (cn s) @ cs \<Longrightarrow> new_calls s s' = cs"
  by (simp add: new_calls_def)

text \<open>
  The events quiche reported during \<open>ProcessH3Events\<close>, in order, each with the data that was
  read for it.
\<close>

fun polled :: "nat \<Rightarrow> 'q quiche \<Rightarrow> 'q callbacks \<Rightarrow> 'q cst \<Rightarrow> (u64 \<times> h3_event \<times> bytes) list" where
  "polled 0 Q cb s = []"
| "polled (Suc n) Q cb s =
     (case call_h3 (q_h3_poll Q) (cn s) of
        Inl e \<Rightarrow> []
      | Inr ((stream_id, ev), c) \<Rightarrow>
          if stream_id = q_err Q QUICHE_ERR_DONE \<or> stream_id < 0 then []
          else (case handle_event n Q cb (word_of_int stream_id) ev (s\<lparr>cn := c\<rparr>) of
                  Inl e \<Rightarrow> []
                | Inr s' \<Rightarrow>
                    (word_of_int stream_id, ev, received (word_of_int stream_id) (new_calls s s')) # polled n Q cb s'))"

definition rx_input :: "(u64 \<times> h3_event \<times> bytes) list \<Rightarrow> (u64 \<times> rx) list" where
  "rx_input evs = concat (map rx_of evs)"

context conn_owner
begin

lemma handle_event_refines:
  assumes ok: "handle_event n Q cb sid ev s = Inr s'" and neg: "q_err Q QUICHE_ERR_DONE < 0"
    and con: "connected (cn s)"
  shows "refines (rx_of (sid, ev, received sid (new_calls s s'))) s s'"
proof (cases ev)
  case (EvHeaders hdrs)
  obtain st c1 where g: "GetIncomingStream sid True (cn s) = (Some st, c1)"
    using GetIncomingStream_Some by (metis surj_pair)
  from GetIncomingStream_rx(3) [OF g] obtain m where c1: "c1 = (cn s)\<lparr>incoming_streams_by_id := m\<rparr>" ..
  have s': "s' = s\<lparr>cn := put_incoming sid (add_headers hdrs st) c1\<rparr>"
    using ok EvHeaders g by (simp add: add_headers_def)
  have "inbox s' = (inbox s)(sid \<mapsto> add_headers hdrs (rx_stream sid (inbox s)))"
    using GetIncomingStream_rx(1,2) [OF g] by (auto simp: s' put_incoming_def um_find_put)
  then have "refines [(sid, RxHeaders hdrs)] s s'"
    unfolding refines_def
    by (intro conjI exI [of _ "[]"]) (simp_all add: s' c1 put_incoming_def)
  with EvHeaders show ?thesis by simp
next
  case EvData
  obtain st c1 where g: "GetIncomingStream sid True (cn s) = (Some st, c1)"
    using GetIncomingStream_Some by (metis surj_pair)
  from GetIncomingStream_rx(3) [OF g] obtain m where c1: "c1 = (cn s)\<lparr>incoming_streams_by_id := m\<rparr>" ..
  from ok EvData g obtain st2 c2 where r: "recv_body_loop n Q sid st c1 = Inr (st2, c2)"
    and s': "s' = s\<lparr>cn := put_incoming sid st2 c2\<rparr>" by (auto elim!: rbindE)
  from recv_body_loop_spec [OF r neg] obtain cs where oc: "only_calls c1 cs c2"
    and st2: "st2 = OnData (received sid cs) st" and o: "\<forall>k. k \<noteq> sid \<longrightarrow> received k cs = []" by blast
  have "inbox s' = (inbox s)(sid \<mapsto> OnData (received sid cs) (rx_stream sid (inbox s)))"
    using GetIncomingStream_rx(1,2) [OF g] only_calls_frame(3) [OF oc]
    by (auto simp: s' st2 put_incoming_def um_find_put)
  then have "rx_run [(sid, RxBody (received sid cs))] (inbox s) = (inbox s', [])" by simp
  moreover have "received k cs = rx_body k [(sid, RxBody (received sid cs))]" for k using o by simp
  ultimately have "refines [(sid, RxBody (received sid cs))] s s'"
    by (rule refinesI [where cs = cs])
       (use only_calls_frame [OF oc] in \<open>simp_all add: s' c1 put_incoming_def\<close>)
  moreover have "new_calls s s' = cs"
    using only_calls_frame(1) [OF oc] by (intro new_calls_eq) (simp add: s' c1 put_incoming_def)
  ultimately show ?thesis using EvData by simp
next
  case EvFinished
  show ?thesis
  proof (cases "inbox s sid")
    case None
    with ok EvFinished have "refines [(sid, RxFinished)] s s'"
      unfolding refines_def by (intro conjI exI [of _ "[]"]) simp_all
    with EvFinished show ?thesis by simp
  next
    case (Some stream)
    let ?c = "(cn s)\<lparr>incoming_streams_by_id := um_erase sid (incoming_streams_by_id (cn s))\<rparr>"
    let ?s1 = "post (data_event (cn s) stream) (s\<lparr>cn := ?c\<rparr>)"
    have d: "on_data cb (data_event (cn s) stream) (s\<lparr>cn := ?c\<rparr>) = Inr ?s1"
      by (rule data_cb_connected) (simp add: con)
    have "inbox ?s1 = (inbox s)(sid := None)" by (auto simp: um_find_erase)
    with Some have f: "refines [(sid, RxFinished)] s ?s1"
      unfolding refines_def by (intro conjI exI [of _ "[stream]"] exI [of _ "[]"]) simp_all
    from ok EvFinished Some obtain s1 where "on_data cb (data_event ?c stream) (s\<lparr>cn := ?c\<rparr>) = Inr s1"
      and rest: "(if \<not> IsServer (cn s1) then rbind (DestroyStream Q sid (cn s1)) (\<lambda>c. Inr (s1\<lparr>cn := c\<rparr>))
               else Inr s1) = Inr s'"
      by (auto simp: Let_def data_event_def elim!: rbindE)
    moreover have "data_event ?c stream = data_event (cn s) stream" by (simp add: data_event_def)
    ultimately have s1: "s1 = ?s1" using d by simp
    have "refines [(sid, RxFinished)] s s'"
    proof (cases "IsServer (cn s1)")
      case True
      with rest f s1 show ?thesis by simp
    next
      case False
      with rest have "rbind (DestroyStream Q sid (cn s1)) (\<lambda>c. Inr (s1\<lparr>cn := c\<rparr>)) = Inr s'" by simp
      then obtain c2 where ds: "DestroyStream Q sid (cn s1) = Inr c2" and "s' = s1\<lparr>cn := c2\<rparr>"
        by (auto elim: rbindE)
      then have "refines [(sid, RxReset)] s1 s'" using DestroyStream_refines [OF ds] by simp
      moreover have "inbox s1 sid = None" by (simp add: s1 um_find_erase)
      ultimately have "refines [] s1 s'" by (rule refines_reset_drop)
      with f [folded s1] have "refines ([(sid, RxFinished)] @ []) s s'" by (rule refines_trans)
      then show ?thesis by simp
    qed
    with EvFinished show ?thesis by auto
  qed
next
  case EvReset
  with ok show ?thesis by (auto elim!: rbindE dest: DestroyStream_refines)
next
  case EvGoAway
  with ok obtain c' where c: "conn_close Q goaway_reason (cn s) = Inr c'" and s': "s' = s\<lparr>cn := c'\<rparr>"
    by (auto elim!: rbindE)
  have "refines [] s s'"
    unfolding s'
    by (rule refines_calls [OF conn_close_only_calls [OF c]])
       (simp_all add: only_calls_frame [OF conn_close_only_calls [OF c]])
  with EvGoAway show ?thesis by simp
next
  case EvPriorityUpdate
  with ok have "refines [] s s'" unfolding refines_def by (intro conjI exI [of _ "[]"]) simp_all
  with EvPriorityUpdate show ?thesis by simp
next
  case EvOther
  with ok have "refines [] s s'" unfolding refines_def by (intro conjI exI [of _ "[]"]) simp_all
  with EvOther show ?thesis by simp
qed

lemma ProcessH3Events_refines:
  "ProcessH3Events n Q cb s = Inr s' \<Longrightarrow> q_err Q QUICHE_ERR_DONE < 0 \<Longrightarrow> connected (cn s) \<Longrightarrow>
   refines (rx_input (polled n Q cb s)) s s'"
proof (induction n arbitrary: s)
  case (Suc n)
  then obtain i ev c1 where p: "call_h3 (q_h3_poll Q) (cn s) = Inr ((i, ev), c1)"
    and rest: "(if i = q_err Q QUICHE_ERR_DONE \<or> i < 0 then Inr (s\<lparr>cn := c1\<rparr>)
          else rbind (handle_event n Q cb (word_of_int i) ev (s\<lparr>cn := c1\<rparr>)) (ProcessH3Events n Q cb)) = Inr s'"
    by (auto simp: Let_def elim!: rbindE)
  from call_h3_Inr [OF p] obtain q where c1: "c1 = (cn s)\<lparr>conn := q\<rparr>" ..
  have e1: "refines [] s (s\<lparr>cn := c1\<rparr>)"
    by (rule refines_calls [where cs = "[]"]) (simp_all add: c1 conn_only_calls)
  show ?case
  proof (cases "i = q_err Q QUICHE_ERR_DONE \<or> i < 0")
    case True
    with rest e1 p show ?thesis by (simp add: rx_input_def)
  next
    case False
    with rest obtain s2 where h: "handle_event n Q cb (word_of_int i) ev (s\<lparr>cn := c1\<rparr>) = Inr s2"
      and r: "ProcessH3Events n Q cb s2 = Inr s'" by (auto elim!: rbindE)
    let ?data = "received (word_of_int i) (new_calls s s2)"
    have "new_calls (s\<lparr>cn := c1\<rparr>) s2 = new_calls s s2" by (simp add: new_calls_def c1)
    with handle_event_refines [OF h Suc.prems(2)] Suc.prems(3)
    have r1: "refines (rx_of (word_of_int i, ev, ?data)) (s\<lparr>cn := c1\<rparr>) s2" by (simp add: c1)
    then have "connected (cn s2)" using Suc.prems(3) by (simp add: refines_def c1)
    note r2 = Suc.IH [OF r Suc.prems(2) this]
    have "polled (Suc n) Q cb s = (word_of_int i, ev, ?data) # polled n Q cb s2"
      using False p h by simp
    then show ?thesis
      using refines_trans [OF refines_trans [OF e1 r1] r2] by (simp add: rx_input_def)
  qed
qed simp

end

end
