(* ===== verification/QS_Sender.thy ===== *)
theory QS_Sender
  imports QS_Receive
begin

text \<open>
  \<open>QuicheSender\<close>: the registry of connections and the thread that flushes them. The shared
  pointers are references into a store of connection objects, so that the two maps
  (\<open>connections_\<close> by destination id, \<open>connections_by_id_\<close> by assigned id) alias the same
  objects. The key of \<open>connections_\<close> is the id's key bytes: two ids are equal exactly if
  these are, and equal ids hash alike (\<open>QS_ConnId\<close>).
\<close>

section \<open>The registry\<close>

record 'q registry =
  objects :: "nat \<Rightarrow> 'q qconn option"
  next_ref :: nat
  connections :: "(bytes, nat) umap"
  connections_by_id :: "(u64, nat) umap"

definition new_registry :: "'q registry" where
  "new_registry = \<lparr>objects = (\<lambda>_. None), next_ref = 0, connections = [], connections_by_id = []\<rparr>"

text \<open>\<open>std::make_shared\<close> and the update of an object.\<close>

definition make_shared :: "'q qconn \<Rightarrow> 'q registry \<Rightarrow> nat \<times> 'q registry" where
  "make_shared c r = (next_ref r, r\<lparr>objects := (objects r)(next_ref r \<mapsto> c), next_ref := Suc (next_ref r)\<rparr>)"

definition set_object :: "nat \<Rightarrow> 'q qconn \<Rightarrow> 'q registry \<Rightarrow> 'q registry" where
  "set_object ref c r = r\<lparr>objects := (objects r)(ref \<mapsto> c)\<rparr>"

definition deref :: "nat \<Rightarrow> 'q registry \<Rightarrow> 'q qconn run" where
  "deref ref r = (case objects r ref of None \<Rightarrow> Inl UseAfterFree | Some c \<Rightarrow> Inr c)"

definition Add :: "nat \<Rightarrow> 'q registry \<Rightarrow> 'q registry run" where
  "Add ref r =
     rbind (deref ref r) (\<lambda>qc.
       Inr (r\<lparr>connections := um_put (cid_key (dcid qc)) ref (connections r),
              connections_by_id := um_put (AssignedId qc) ref (connections_by_id r)\<rparr>))"

definition Find_dcid :: "conn_id \<Rightarrow> 'q registry \<Rightarrow> nat option" where
  "Find_dcid d r = um_find (cid_key d) (connections r)"

definition Find_id :: "u64 \<Rightarrow> 'q registry \<Rightarrow> nat option" where
  "Find_id i r = um_find i (connections_by_id r)"

section \<open>The flushing thread\<close>

text \<open>
  One pass of \<open>Loop\<close> over \<open>connections_\<close>: the connections to release, whether anything was
  sent, the buffer, and the new registry and host. \<open>connection\<close> is a reference to the map's
  node, and the assigned id is read through it after the node was erased.
\<close>

fun sweep ::
    "nat \<Rightarrow> 'q quiche \<Rightarrow> freed_memory \<Rightarrow> 'q callbacks \<Rightarrow> (bytes \<times> nat) list \<Rightarrow> nat option \<Rightarrow> 'q registry \<Rightarrow> host \<Rightarrow>
     ((nat list \<times> bool \<times> nat option) \<times> 'q registry \<times> host) run" where
  "sweep n Q F cb [] buffer r h = Inr (([], False, buffer), r, h)"
| "sweep n Q F cb ((key, ref) # rest) buffer r h =
     rbind (deref ref r) (\<lambda>c.
       if timed_out c then
         rbind (freed_assigned_id F (AssignedId c)) (\<lambda>i.
         rbind (sweep n Q F cb rest buffer
                  (r\<lparr>connections := um_erase key (connections r),
                     connections_by_id := um_erase i (connections_by_id r)\<rparr>) h)
           (\<lambda>((freed, send_fast, buffer), r, h). Inr ((ref # freed, send_fast, buffer), r, h)))
       else
         rbind (FlushEgress n Q F cb buffer \<lparr>cn = c, hs = h\<rparr>) (\<lambda>((sent, b), s).
         rbind (sweep n Q F cb rest (Some b) (set_object ref (cn s) r) (hs s))
           (\<lambda>((freed, send_fast, buffer), r, h). Inr ((freed, sent \<or> send_fast, buffer), r, h))))"

definition QUIC_SEND_SLOW_INTERVAL_MSEC :: nat where "QUIC_SEND_SLOW_INTERVAL_MSEC = 20"
definition QUIC_SEND_FAST_INTERVAL_MSEC :: nat where "QUIC_SEND_FAST_INTERVAL_MSEC = 10"

text \<open>
  \<open>freed_connections.clear()\<close>: an object no map refers to is destroyed (another thread that
  still holds a pointer to it would delay this).
\<close>

definition referenced :: "nat \<Rightarrow> 'q registry \<Rightarrow> bool" where
  "referenced ref r \<longleftrightarrow> ref \<in> snd ` set (connections r) \<or> ref \<in> snd ` set (connections_by_id r)"

definition release :: "nat list \<Rightarrow> 'q registry \<Rightarrow> 'q registry" where
  "release freed r =
     r\<lparr>objects := (\<lambda>ref. if ref \<in> set freed \<and> \<not> referenced ref r then None else objects r ref)\<rparr>"

text \<open>One iteration of \<open>Loop\<close>: the next interval as well.\<close>

definition Loop_round ::
    "nat \<Rightarrow> 'q quiche \<Rightarrow> freed_memory \<Rightarrow> 'q callbacks \<Rightarrow> nat option \<Rightarrow> 'q registry \<Rightarrow> host \<Rightarrow>
     ((nat \<times> nat option) \<times> 'q registry \<times> host) run" where
  "Loop_round n Q F cb buffer r h =
     rbind (sweep n Q F cb (connections r) buffer r h) (\<lambda>((freed, send_fast, buffer), r, h).
       Inr ((if send_fast then QUIC_SEND_FAST_INTERVAL_MSEC else QUIC_SEND_SLOW_INTERVAL_MSEC, buffer), release freed r, h))"

section \<open>The two maps agree\<close>

text \<open>
  Each connection is registered under its own two ids, in both maps or in neither, and its
  outgoing queue is well-formed.
\<close>

definition registered :: "'q registry \<Rightarrow> nat \<Rightarrow> 'q qconn \<Rightarrow> bool" where
  "registered r ref c \<longleftrightarrow> objects r ref = Some c \<and>
     um_find (cid_key (dcid c)) (connections r) = Some ref \<and>
     um_find (AssignedId c) (connections_by_id r) = Some ref"

definition reg_ok :: "'q registry \<Rightarrow> bool" where
  "reg_ok r \<longleftrightarrow> um_inv (connections r) \<and> um_inv (connections_by_id r) \<and>
     (\<forall>k ref. um_find k (connections r) = Some ref \<longrightarrow> (\<exists>c. registered r ref c \<and> cid_key (dcid c) = k)) \<and>
     (\<forall>i ref. um_find i (connections_by_id r) = Some ref \<longrightarrow> (\<exists>c. registered r ref c \<and> AssignedId c = i)) \<and>
     (\<forall>ref \<ge> next_ref r. objects r ref = None) \<and>
     (\<forall>ref c. objects r ref = Some c \<longrightarrow> outgoing_ok (outgoing_streams_by_id c))"

lemma reg_ok_new: "reg_ok new_registry"
  by (simp add: reg_ok_def new_registry_def um_inv_def um_find_def)

lemma reg_okD:
  assumes "reg_ok r"
  shows "um_find k (connections r) = Some ref \<Longrightarrow> \<exists>c. registered r ref c \<and> cid_key (dcid c) = k"
    and "um_find i (connections_by_id r) = Some ref \<Longrightarrow> \<exists>c. registered r ref c \<and> AssignedId c = i"
    and "objects r ref = Some c \<Longrightarrow> outgoing_ok (outgoing_streams_by_id c)"
  using assms by (simp_all add: reg_ok_def)

lemma reg_ok_make_shared:
  assumes "reg_ok r" and "outgoing_ok (outgoing_streams_by_id c)" and "make_shared c r = (ref, r')"
  shows "reg_ok r'" and "objects r' ref = Some c" and "connections r' = connections r"
    and "connections_by_id r' = connections_by_id r"
proof -
  have fresh: "objects r (next_ref r) = None" using assms(1) by (simp add: reg_ok_def)
  have same: "registered r' x c' \<longleftrightarrow> registered r x c'" if "x \<noteq> next_ref r" for x c'
    using assms(3) that by (auto simp: registered_def make_shared_def)
  have old: "x \<noteq> next_ref r" if "registered r x c'" for x c'
    using that fresh by (auto simp: registered_def)
  show "objects r' ref = Some c" and m: "connections r' = connections r" "connections_by_id r' = connections_by_id r"
    using assms(3) by (auto simp: make_shared_def)
  have o: "objects r' = (objects r)(next_ref r \<mapsto> c)" "next_ref r' = Suc (next_ref r)"
    using assms(3) by (auto simp: make_shared_def)
  show "reg_ok r'"
    using assms(1,2) same old unfolding reg_ok_def m o by (auto simp: fun_upd_apply) blast+
qed

lemma reg_ok_Add:
  assumes "reg_ok r" and "objects r ref = Some c"
    and "um_find (cid_key (dcid c)) (connections r) = None" and "um_find (AssignedId c) (connections_by_id r) = None"
    and "Add ref r = Inr r'"
  shows "reg_ok r'" and "registered r' ref c" and "next_ref r' = next_ref r" and "objects r' = objects r"
proof -
  have r': "r' = r\<lparr>connections := um_put (cid_key (dcid c)) ref (connections r),
              connections_by_id := um_put (AssignedId c) ref (connections_by_id r)\<rparr>"
    using assms(2,5) by (simp add: Add_def deref_def)
  show reg: "registered r' ref c" using assms(2) by (simp add: r' registered_def um_find_put)
  show "next_ref r' = next_ref r" and "objects r' = objects r" by (simp_all add: r')
  have keep: "registered r' x c'" if "registered r x c'" for x c'
    using that assms(3,4) by (auto simp: r' registered_def um_find_put)
  have "\<exists>c'. registered r' x c' \<and> cid_key (dcid c') = k" if "um_find k (connections r') = Some x" for k x
    using that reg keep reg_okD(1) [OF assms(1)] by (auto simp: r' um_find_put split: if_splits) blast
  moreover have "\<exists>c'. registered r' x c' \<and> AssignedId c' = i" if "um_find i (connections_by_id r') = Some x" for i x
    using that reg keep reg_okD(2) [OF assms(1)] by (auto simp: r' um_find_put split: if_splits) blast
  moreover have "um_inv (connections r')" "um_inv (connections_by_id r')"
    using assms(1) by (simp_all add: r' reg_ok_def um_inv_put)
  ultimately show "reg_ok r'" using assms(1) unfolding reg_ok_def by (simp add: r')
qed

lemma reg_ok_set_object:
  assumes "reg_ok r" and "registered r ref c"
    and "dcid c' = dcid c" and "AssignedId c' = AssignedId c" and "outgoing_ok (outgoing_streams_by_id c')"
  shows "reg_ok (set_object ref c' r)"
proof -
  let ?r = "set_object ref c' r"
  have reg: "registered ?r ref c'" using assms by (simp add: registered_def set_object_def)
  have keep: "registered ?r x d" if "registered r x d" "x \<noteq> ref" for x d
    using that by (simp add: registered_def set_object_def)
  have the: "d = c" if "registered r ref d" for d using that assms(2) by (simp add: registered_def)
  have "\<exists>d. registered ?r x d \<and> cid_key (dcid d) = k" if "um_find k (connections r) = Some x" for k x
    using reg_okD(1) [OF assms(1) that] reg keep the assms(3) by metis
  moreover have "\<exists>d. registered ?r x d \<and> AssignedId d = i" if "um_find i (connections_by_id r) = Some x" for i x
    using reg_okD(2) [OF assms(1) that] reg keep the assms(4) by metis
  moreover have "ref < next_ref r"
    using assms(1,2) by (auto simp: reg_ok_def registered_def not_le [symmetric])
  ultimately show ?thesis
    using assms(1,5) unfolding reg_ok_def by (auto simp: set_object_def)
qed

lemma reg_ok_erase:
  assumes "reg_ok r" and "registered r ref c"
  shows "reg_ok (r\<lparr>connections := um_erase (cid_key (dcid c)) (connections r),
                  connections_by_id := um_erase (AssignedId c) (connections_by_id r)\<rparr>)" (is "reg_ok ?r")
proof -
  have ref: "x = ref" if "registered r x d" "cid_key (dcid d) = cid_key (dcid c) \<or> AssignedId d = AssignedId c" for x d
    using that assms(2) by (auto simp: registered_def)
  have keep: "registered ?r x d" if "registered r x d" "x \<noteq> ref" for x d
    using that ref [OF that(1)] by (auto simp: registered_def um_find_erase)
  have c: "d = c" if "registered r ref d" for d using that assms(2) by (simp add: registered_def)
  have "\<exists>d. registered ?r x d \<and> cid_key (dcid d) = k" if "um_find k (connections ?r) = Some x" for k x
  proof -
    from that have k: "k \<noteq> cid_key (dcid c)" "um_find k (connections r) = Some x"
      by (auto simp: um_find_erase split: if_splits)
    from reg_okD(1) [OF assms(1) k(2)] obtain d where d: "registered r x d" "cid_key (dcid d) = k" by blast
    with k(1) c have "x \<noteq> ref" by blast
    with keep d show ?thesis by blast
  qed
  moreover have "\<exists>d. registered ?r x d \<and> AssignedId d = i" if "um_find i (connections_by_id ?r) = Some x" for i x
  proof -
    from that have i: "i \<noteq> AssignedId c" "um_find i (connections_by_id r) = Some x"
      by (auto simp: um_find_erase split: if_splits)
    from reg_okD(2) [OF assms(1) i(2)] obtain d where d: "registered r x d" "AssignedId d = i" by blast
    with i(1) c have "x \<noteq> ref" by blast
    with keep d show ?thesis by blast
  qed
  moreover have "um_inv (connections ?r)" "um_inv (connections_by_id ?r)"
    using assms(1) by (simp_all add: reg_ok_def um_inv_erase)
  ultimately show ?thesis using assms(1) unfolding reg_ok_def by simp
qed

lemma um_find_referenced:
  "um_find k (connections r) = Some ref \<Longrightarrow> referenced ref r"
  "um_find i (connections_by_id r) = Some ref \<Longrightarrow> referenced ref r"
  by (force simp: referenced_def dest: um_find_Some_in)+

lemma registered_release [simp]: "registered (release freed r) ref c \<longleftrightarrow> registered r ref c"
  by (auto simp: registered_def release_def dest: um_find_referenced)

lemma release_maps [simp]:
  "connections (release freed r) = connections r" "connections_by_id (release freed r) = connections_by_id r"
  "next_ref (release freed r) = next_ref r"
  by (simp_all add: release_def)

lemma reg_ok_release: "reg_ok r \<Longrightarrow> reg_ok (release freed r)"
  unfolding reg_ok_def by (simp, auto simp: release_def)

lemma release_unreferenced:
  "reg_ok r \<Longrightarrow> ref \<in> set freed \<Longrightarrow> objects r ref = Some c \<Longrightarrow>
   um_find (cid_key (dcid c)) (connections r) = None \<Longrightarrow> objects (release freed r) ref = None"
proof -
  assume ok: "reg_ok r" and f: "ref \<in> set freed" and c: "objects r ref = Some c"
    and no: "um_find (cid_key (dcid c)) (connections r) = None"
  have "\<not> referenced ref r"
  proof
    assume "referenced ref r"
    then obtain d where "registered r ref d"
      using ok unfolding referenced_def reg_ok_def by (auto simp flip: um_find_iff) blast+
    with c no show False by (simp add: registered_def)
  qed
  with f show ?thesis by (simp add: release_def)
qed

section \<open>What a pass of the thread does to the registry\<close>

text \<open>
  \<open>benign\<close>: reading the erased node gives what was there. The pass over the entries \<open>es\<close>
  then takes exactly the closed connections out of both maps.
\<close>

definition benign :: "freed_memory \<Rightarrow> bool" where
  "benign F \<longleftrightarrow> (\<forall>i. freed_assigned_id F i = Inr i)"

definition swept :: "'q registry \<Rightarrow> 'q registry \<Rightarrow> (bytes \<times> nat) list \<Rightarrow> nat list \<Rightarrow> bool" where
  "swept r r' es freed \<longleftrightarrow> reg_ok r' \<and> set freed \<subseteq> snd ` set es \<and>
     (\<forall>k ref c. (k, ref) \<in> set es \<longrightarrow> registered r ref c \<longrightarrow>
        (if timed_out c then um_find k (connections r') = None \<and>
             um_find (AssignedId c) (connections_by_id r') = None \<and> ref \<in> set freed
         else um_find k (connections r') = Some ref \<and>
             um_find (AssignedId c) (connections_by_id r') = Some ref \<and> ref \<notin> set freed)) \<and>
     (\<forall>k. k \<notin> fst ` set es \<longrightarrow> um_find k (connections r') = um_find k (connections r)) \<and>
     (\<forall>i ref. um_find i (connections_by_id r') = Some ref \<longrightarrow> um_find i (connections_by_id r) = Some ref)"

definition entries_of :: "'q registry \<Rightarrow> (bytes \<times> nat) list \<Rightarrow> bool" where
  "entries_of r es \<longleftrightarrow> distinct (map fst es) \<and>
     (\<forall>(k, ref) \<in> set es. \<exists>c. registered r ref c \<and> cid_key (dcid c) = k)"

lemma entries_of_connections: "reg_ok r \<Longrightarrow> entries_of r (connections r)"
  by (auto simp: entries_of_def reg_ok_def um_inv_def um_find_def)

lemma registered_same_ref: "registered r ref c \<Longrightarrow> registered r ref d \<Longrightarrow> c = d"
  by (simp add: registered_def)

lemma registered_same_key:
  "registered r ref c \<Longrightarrow> registered r ref' d \<Longrightarrow> cid_key (dcid c) = cid_key (dcid d) \<or> AssignedId c = AssignedId d \<Longrightarrow>
   ref = ref'"
  by (auto simp: registered_def)

lemma swept_gone:
  assumes "swept r1 r' es freed" and "k \<notin> fst ` set es"
    and "um_find k (connections r1) = None" and "um_find i (connections_by_id r1) = None"
  shows "um_find k (connections r') = None" and "um_find i (connections_by_id r') = None"
proof -
  show "um_find k (connections r') = None" using assms(1-3) by (simp add: swept_def)
  have "um_find i (connections_by_id r') \<noteq> Some x" for x
    using assms(1,4) unfolding swept_def by force
  then show "um_find i (connections_by_id r') = None" by (meson not_None_eq)
qed

lemma swept_cons:
  assumes ih: "swept r1 r' es freed1" and c: "registered r ref c" "cid_key (dcid c) = k"
    and other: "\<And>k2 ref2. (k2, ref2) \<in> set es \<Longrightarrow> ref2 \<noteq> ref"
    and keep: "\<And>x d. x \<noteq> ref \<Longrightarrow> registered r x d \<Longrightarrow> registered r1 x d"
    and conn1: "\<And>k2. k2 \<noteq> k \<Longrightarrow> um_find k2 (connections r1) = um_find k2 (connections r)"
    and ids: "\<And>i x. um_find i (connections_by_id r1) = Some x \<Longrightarrow> um_find i (connections_by_id r) = Some x"
    and head: "if timed_out c then um_find k (connections r') = None \<and>
             um_find (AssignedId c) (connections_by_id r') = None \<and> ref \<in> set freed
         else um_find k (connections r') = Some ref \<and>
             um_find (AssignedId c) (connections_by_id r') = Some ref \<and> ref \<notin> set freed"
    and freed: "set freed1 \<subseteq> set freed" "set freed \<subseteq> insert ref (set freed1)"
  shows "swept r r' ((k, ref) # es) freed"
  unfolding swept_def
proof (intro conjI allI impI)
  show "reg_ok r'" using ih by (simp add: swept_def)
  show "set freed \<subseteq> snd ` set ((k, ref) # es)" using ih freed by (auto simp: swept_def)
  fix k2 ref2 d
  assume m: "(k2, ref2) \<in> set ((k, ref) # es)" and d: "registered r ref2 d"
  show "if timed_out d then um_find k2 (connections r') = None \<and>
         um_find (AssignedId d) (connections_by_id r') = None \<and> ref2 \<in> set freed
     else um_find k2 (connections r') = Some ref2 \<and>
         um_find (AssignedId d) (connections_by_id r') = Some ref2 \<and> ref2 \<notin> set freed"
  proof (cases "(k2, ref2) \<in> set es")
    case True
    then have "ref2 \<noteq> ref" by (rule other)
    moreover from keep [OF this d] have "registered r1 ref2 d" .
    ultimately show ?thesis using ih True freed unfolding swept_def by (smt (verit) insertE subsetD)
  next
    case False
    with m have "k2 = k" "ref2 = ref" by simp_all
    with d c(1) have "d = c" by (simp add: registered_def)
    with head \<open>k2 = k\<close> \<open>ref2 = ref\<close> show ?thesis by simp
  qed
next
  fix k2 assume "k2 \<notin> fst ` set ((k, ref) # es)"
  with ih conn1 show "um_find k2 (connections r') = um_find k2 (connections r)"
    by (simp add: swept_def)
next
  fix i x assume "um_find i (connections_by_id r') = Some x"
  with ih have "um_find i (connections_by_id r1) = Some x" by (simp add: swept_def)
  then show "um_find i (connections_by_id r) = Some x" by (rule ids)
qed

context conn_owner
begin

lemma sweep_spec:
  "sweep n Q F cb es buffer r h = Inr ((freed, send_fast, buffer'), r', h') \<Longrightarrow>
   benign F \<Longrightarrow> reg_ok r \<Longrightarrow> entries_of r es \<Longrightarrow> swept r r' es freed"
proof (induction es arbitrary: buffer r h freed send_fast)
  case Nil
  then show ?case by (simp add: swept_def)
next
  case (Cons e es)
  obtain k ref where e: "e = (k, ref)" by (cases e)
  from Cons.prems(4) e obtain c where c: "registered r ref c" "cid_key (dcid c) = k"
    and k: "k \<notin> fst ` set es" and ent: "distinct (map fst es)"
      "\<forall>(k, ref) \<in> set es. \<exists>c. registered r ref c \<and> cid_key (dcid c) = k"
    by (auto simp: entries_of_def)
  have other: "ref2 \<noteq> ref" if "(k2, ref2) \<in> set es" for k2 ref2
    using that k ent(2) c by (force dest: registered_same_ref)
  have sub: "entries_of r1 es" if "\<And>x d. x \<noteq> ref \<Longrightarrow> registered r x d \<Longrightarrow> registered r1 x d" for r1
    using ent other that unfolding entries_of_def by fast
  have dref: "deref ref r = Inr c" using c by (simp add: deref_def registered_def)
  show ?case
  proof (cases "timed_out c")
    case True
    let ?r = "r\<lparr>connections := um_erase k (connections r),
                connections_by_id := um_erase (AssignedId c) (connections_by_id r)\<rparr>"
    from Cons.prems(1,2) True dref e obtain freed1 sf where
        sw: "sweep n Q F cb es buffer ?r h = Inr ((freed1, sf, buffer'), r', h')" and freed: "freed = ref # freed1"
      by (auto simp: benign_def elim!: rbindE)
    have ok: "reg_ok ?r" using reg_ok_erase [OF Cons.prems(3) c(1)] c(2) by simp
    have keep: "registered ?r x d" if "x \<noteq> ref" "registered r x d" for x d
      using that c registered_same_key [OF c(1), of x d] by (auto simp: registered_def um_find_erase)
    note ih = Cons.IH [OF sw Cons.prems(2) ok sub [OF keep]]
    show ?thesis unfolding e
      by (rule swept_cons [OF ih c other keep])
         (use True freed swept_gone [OF ih k, of "AssignedId c"] in \<open>auto simp: um_find_erase split: if_splits\<close>)
  next
    case False
    with Cons.prems(1) dref e obtain sent b s sf where
        fl: "FlushEgress n Q F cb buffer \<lparr>cn = c, hs = h\<rparr> = Inr ((sent, b), s)"
      and sw: "sweep n Q F cb es (Some b) (set_object ref (cn s) r) (hs s) = Inr ((freed, sf, buffer'), r', h')"
      by (auto elim!: rbindE)
    let ?r = "set_object ref (cn s) r"
    have "out_ok \<lparr>cn = c, hs = h\<rparr>" using reg_okD(3) [OF Cons.prems(3), of ref c] c(1) by (simp add: registered_def)
    with FlushEgress_evolves [OF fl] have same: "dcid (cn s) = dcid c" "AssignedId (cn s) = AssignedId c"
      "outgoing_ok (outgoing_streams_by_id (cn s))"
      by (simp_all add: evolves_def)
    have ok: "reg_ok ?r" by (rule reg_ok_set_object [OF Cons.prems(3) c(1) same])
    have keep: "registered ?r x d" if "x \<noteq> ref" "registered r x d" for x d
      using that by (auto simp: registered_def set_object_def)
    note ih = Cons.IH [OF sw Cons.prems(2) ok sub [OF keep]]
    have f: "um_find k (connections r') = Some ref"
      using ih k c by (simp add: swept_def set_object_def registered_def)
    have "reg_ok r'" using ih by (simp add: swept_def)
    from reg_okD(1) [OF this f] obtain c' where c': "registered r' ref c'" by blast
    have "um_find i (connections_by_id r) = Some x" if "um_find i (connections_by_id r') = Some x" for i x
      using ih that by (simp add: swept_def set_object_def)
    with c' have "um_find (AssignedId c') (connections_by_id r) = Some ref" by (simp add: registered_def)
    from reg_okD(2) [OF Cons.prems(3) this] c(1) have "AssignedId c' = AssignedId c"
      by (auto simp: registered_def)
    with c' have f2: "um_find (AssignedId c) (connections_by_id r') = Some ref" by (simp add: registered_def)
    have "set freed \<subseteq> snd ` set es" using ih by (simp add: swept_def)
    with other have nf: "ref \<notin> set freed" by force
    show ?thesis unfolding e
      by (rule swept_cons [OF ih c other keep]) (use False f f2 nf in \<open>auto simp: set_object_def\<close>)
  qed
qed

lemma Loop_round_spec:
  assumes "Loop_round n Q F cb buffer r h = Inr ((interval, buffer'), r', h')" and "benign F" and "reg_ok r"
  shows "\<exists>freed. swept r r' (connections r) freed"
proof -
  from assms(1) obtain freed sf r1 where
      sw: "sweep n Q F cb (connections r) buffer r h = Inr ((freed, sf, buffer'), r1, h')"
    and r': "r' = release freed r1"
    by (auto simp: Loop_round_def elim!: rbindE)
  from sweep_spec [OF sw assms(2,3) entries_of_connections [OF assms(3)]]
  have "swept r r' (connections r) freed" by (simp add: swept_def r' reg_ok_release)
  then show ?thesis ..
qed

end

end
