(* ===== verification/QS_Token.thy ===== *)
theory QS_Token
  imports QS_ConnId QS_Endpoint
begin

text \<open>
  Address validation tokens: \<open>mint_token\<close> and \<open>read_token\<close> of \<open>quicsend_quiche.cpp\<close>.
  Layout: \<open>TOKEN_ID\<close>, length of the original connection id, family flag, port (16 bit
  little-endian), connection id, address. The main facts: reading a minted token for the
  same endpoint returns the connection id, a token is bound to the endpoint it was minted
  for, and exactly which tokens make \<open>read_token\<close> write outside its output or throw.
\<close>

definition TOKEN_ID :: u8 where "TOKEN_ID = 0xdc"

definition mint_token :: "conn_id \<Rightarrow> endpoint \<Rightarrow> bytes" where
  "mint_token dcid ep =
     (let dcid_len = Length dcid;
          len = 5 + dcid_len + (if is_v4 (address ep) then 4 else 16);
          token = replicate len 0;
          token = token[0 := TOKEN_ID];
          token = token[1 := of_nat dcid_len];
          token = token[2 := (if is_v4 (address ep) then 1 else 0)];
          token = write_uint16_le token 3 (port ep);
          token = memcpy token 5 (Id_bytes dcid) dcid_len
      in case address ep of
           V4 addr \<Rightarrow> write_uint32_le token (dcid_len + 5) addr
         | V6 v6addr scope \<Rightarrow> memcpy token (dcid_len + 5) v6addr (length v6addr))"

text \<open>
  \<open>token\<close> holds the \<open>token_len\<close> bytes the caller passes. The result is the returned flag
  and the final value of the output parameter \<open>odcid\<close>, which some failing paths have
  already written. \<open>memcpy(odcid.data(), token, dcid_len)\<close> is bounded by the token only,
  while \<open>odcid.Id\<close> has 16 bytes.
\<close>

definition read_token :: "bytes \<Rightarrow> endpoint \<Rightarrow> conn_id \<Rightarrow> (bool \<times> conn_id) run" where
  "read_token token ep odcid =
     (if length token < 5 + 4 then Inr (False, odcid)
      else if token ! 0 \<noteq> TOKEN_ID then Inr (False, odcid)
      else let dcid_len = unat (token ! 1);
               v4 = (token ! 2 \<noteq> 0);
               p = read_uint16_le token 3;
               token = drop 5 token
           in if port ep \<noteq> p then Inr (False, odcid)
              else if length token < dcid_len then Inr (False, odcid)
              else if LOCAL_CONN_ID_LEN < dcid_len then Inl OutOfBounds
              else let odcid = odcid\<lparr>Id_bytes := memcpy (Id_bytes odcid) 0 token dcid_len,
                                     Length := dcid_len\<rparr>;
                       token = drop dcid_len token
                   in if v4 then
                        if length token < 4 then Inr (False, odcid)
                        else rbind (to_v4 (address ep)) (\<lambda>a.
                          if a \<noteq> read_uint32_le token 0 then Inr (False, odcid) else Inr (True, odcid))
                      else
                        if length token < 16 then Inr (False, odcid)
                        else rbind (to_v6_bytes (address ep)) (\<lambda>b.
                          if memcmp token b 16 \<noteq> 0 then Inr (False, odcid) else Inr (True, odcid)))"

section \<open>Shape of a minted token\<close>

definition address_bytes :: "address \<Rightarrow> bytes" where
  "address_bytes a = (case a of
      V4 addr \<Rightarrow> [ucast addr, ucast (drop_bit 8 addr), ucast (drop_bit 16 addr), ucast (drop_bit 24 addr)]
    | V6 b s \<Rightarrow> b)"

lemma length_address_bytes:
  "address_wf a \<Longrightarrow> length (address_bytes a) = (if is_v4 a then 4 else 16)"
  by (cases a) (simp_all add: address_bytes_def)

lemma mint_token_layout:
  assumes "cid_wf dcid" and "endpoint_wf ep"
  shows "mint_token dcid ep =
     [TOKEN_ID, of_nat (Length dcid), (if is_v4 (address ep) then 1 else 0),
      ucast (port ep), ucast (drop_bit 8 (port ep))] @ cid_key dcid @ address_bytes (address ep)"
proof -
  have L: "Length dcid \<le> 16" "length (Id_bytes dcid) = 16"
    using assms(1) by (simp_all add: cid_wf_def LOCAL_CONN_ID_LEN_def)
  show ?thesis
  proof (cases "address ep")
    case (V4 a)
    with L show ?thesis
      by (intro nth_equalityI)
         (auto simp: mint_token_def Let_def memcpy_def write_uint16_le_def write_uint32_le_def
           address_bytes_def cid_key_def nth_append nth_Cons' nth_list_update,
          simp add: eval_nat_numeral)
  next
    case (V6 b s)
    with L assms(2) show ?thesis
      by (intro nth_equalityI)
         (auto simp: mint_token_def Let_def memcpy_def write_uint16_le_def endpoint_wf_def
           address_bytes_def cid_key_def nth_append nth_Cons' nth_list_update,
          simp_all add: eval_nat_numeral)
  qed
qed

lemma length_mint_token:
  "cid_wf dcid \<Longrightarrow> endpoint_wf ep \<Longrightarrow>
   length (mint_token dcid ep) = 5 + Length dcid + (if is_v4 (address ep) then 4 else 16)"
  by (simp add: mint_token_layout length_address_bytes endpoint_wf_def)

lemma unat_of_nat_u8: "n \<le> 16 \<Longrightarrow> unat (of_nat n :: u8) = n"
  by (simp add: unat_of_nat take_bit_nat_eq_self_iff)

lemma read16_head:
  "read_uint16_le (a # b # c # ucast p # ucast (drop_bit 8 p) # xs) 3 = p"
  by (simp add: read_uint16_le_def bytes_of_u16)

lemma read32_address_bytes: "read_uint32_le (address_bytes (V4 a) @ xs) 0 = a"
  by (simp add: read_uint32_le_def address_bytes_def bytes_of_u32)

text \<open>The two address checks, on the bytes that follow the connection id.\<close>

definition check_address :: "bool \<Rightarrow> bytes \<Rightarrow> address \<Rightarrow> conn_id \<Rightarrow> (bool \<times> conn_id) run" where
  "check_address v4 token a odcid =
     (if v4 then
        if length token < 4 then Inr (False, odcid)
        else rbind (to_v4 a) (\<lambda>a. Inr (a = read_uint32_le token 0, odcid))
      else
        if length token < 16 then Inr (False, odcid)
        else rbind (to_v6_bytes a) (\<lambda>b. Inr (memcmp token b 16 = 0, odcid)))"

definition set_odcid :: "conn_id \<Rightarrow> bytes \<Rightarrow> nat \<Rightarrow> conn_id" where
  "set_odcid odcid token n =
     odcid\<lparr>Id_bytes := memcpy (Id_bytes odcid) 0 token n, Length := n\<rparr>"

lemma read_token_eq:
  "read_token token ep odcid =
     (if length token < 9 \<or> token ! 0 \<noteq> TOKEN_ID \<or> port ep \<noteq> read_uint16_le token 3 \<or>
         length token - 5 < unat (token ! 1) then Inr (False, odcid)
      else if LOCAL_CONN_ID_LEN < unat (token ! 1) then Inl OutOfBounds
      else check_address (token ! 2 \<noteq> 0) (drop (5 + unat (token ! 1)) token) (address ep)
             (set_odcid odcid (drop 5 token) (unat (token ! 1))))"
proof -
  have if_rbind: "rbind m (\<lambda>a. if P a then Inr (False, c) else Inr (True, c)) =
      rbind m (\<lambda>a. Inr (\<not> P a, c))" for m :: "'x run" and P and c :: conn_id
    by (rule arg_cong [where f = "rbind m"]) auto
  show ?thesis
    by (simp add: read_token_def Let_def check_address_def set_odcid_def if_rbind add.commute)
qed

lemma drop_header: "drop (5 + n) (a # b # c # d # e # xs) = drop n xs"
  by (simp add: eval_nat_numeral)

lemma read_token_minted:
  assumes "cid_wf dcid" and "endpoint_wf ep"
  shows "read_token (mint_token dcid ep) ep' odcid =
     (if port ep' \<noteq> port ep then Inr (False, odcid)
      else check_address (is_v4 (address ep)) (address_bytes (address ep)) (address ep')
             (set_odcid odcid (cid_key dcid @ address_bytes (address ep)) (Length dcid)))"
proof -
  have n: "unat (of_nat (Length dcid) :: u8) = Length dcid" "Length dcid \<le> 16"
    using assms(1) by (simp_all add: cid_wf_def LOCAL_CONN_ID_LEN_def unat_of_nat_u8)
  have len: "4 \<le> length (address_bytes (address ep))"
    using assms(2) by (cases "address ep") (simp_all add: endpoint_wf_def address_bytes_def)
  show ?thesis
    using assms n len
    by (simp add: read_token_eq mint_token_layout read16_head LOCAL_CONN_ID_LEN_def drop_header)
qed

lemma check_address_v4: "check_address True (address_bytes (V4 a)) a' c =
    rbind (to_v4 a') (\<lambda>x. Inr (x = a, c))"
  using read32_address_bytes [of a "[]"] by (simp add: check_address_def address_bytes_def)

lemma check_address_v6: "length b = 16 \<Longrightarrow> check_address False (address_bytes (V6 b s)) a' c =
    rbind (to_v6_bytes a') (\<lambda>x. Inr (memcmp b x 16 = 0, c))"
  by (simp add: check_address_def address_bytes_def)

lemma cid_key_set_odcid:
  "cid_wf odcid \<Longrightarrow> n \<le> 16 \<Longrightarrow> n \<le> length token \<Longrightarrow> cid_key (set_odcid odcid token n) = take n token"
  by (simp add: set_odcid_def cid_key_def memcpy_def)

lemma cid_wf_set_odcid:
  "cid_wf odcid \<Longrightarrow> n \<le> 16 \<Longrightarrow> n \<le> length token \<Longrightarrow> cid_wf (set_odcid odcid token n)"
  by (simp add: set_odcid_def cid_wf_def memcpy_def LOCAL_CONN_ID_LEN_def)

section \<open>Properties\<close>

text \<open>
  C15: A token minted for a connection id and an endpoint is accepted when it comes back
  from that endpoint, and the connection id read from it is the one it was minted for.
\<close>

theorem token_roundtrip:
  assumes "cid_wf dcid" and "cid_wf odcid" and "endpoint_wf ep"
  shows "\<exists>c. read_token (mint_token dcid ep) ep odcid = Inr (True, c) \<and>
             cid_wf c \<and> conn_id_eq c dcid"
proof -
  let ?c = "set_odcid odcid (cid_key dcid @ address_bytes (address ep)) (Length dcid)"
  have L: "Length dcid \<le> 16" "length (cid_key dcid) = Length dcid"
    using assms(1) by (simp_all add: cid_wf_def cid_key_def LOCAL_CONN_ID_LEN_def)
  have wf: "cid_wf ?c" using assms(2) L by (simp add: cid_wf_set_odcid)
  moreover have "cid_key ?c = cid_key dcid"
    using assms(2) L by (simp add: cid_key_set_odcid)
  ultimately have "conn_id_eq ?c dcid"
    using assms(1) by (simp add: conn_id_eq_iff_key)
  moreover have "check_address (is_v4 (address ep)) (address_bytes (address ep)) (address ep) ?c
      = Inr (True, ?c)"
    using assms(3)
    by (cases "address ep")
       (simp_all add: endpoint_wf_def check_address_v4 check_address_v6 memcmp_eq_0)
  ultimately show ?thesis
    using assms wf by (simp add: read_token_minted)
qed

definition ex_cid :: conn_id where
  "ex_cid = \<lparr>Id_bytes = [1,2,3,4,5,6,7,8,9,10,11,12,13,14,15,16], Length = 16\<rparr>"

definition ex_ep :: endpoint where
  "ex_ep = \<lparr>address = V4 0x7F000001, port = 4433\<rparr>"

lemma ex_wf: "cid_wf ex_cid" "endpoint_wf ex_ep"
  by (simp_all add: cid_wf_def ex_cid_def LOCAL_CONN_ID_LEN_def endpoint_wf_def ex_ep_def)

theorem token_roundtrip_witness:
  "\<exists>c. read_token (mint_token ex_cid ex_ep) ex_ep ex_cid = Inr (True, c) \<and>
       cid_wf c \<and> conn_id_eq c ex_cid"
  by (rule token_roundtrip) (rule ex_wf)+

text \<open>
  C16: A token is bound to the endpoint it was minted for: presented from any other
  endpoint it is accepted only when port and address (up to the IPv6 scope id) agree.
\<close>

theorem token_bound_to_endpoint:
  assumes "cid_wf dcid" and "endpoint_wf ep" and "endpoint_wf ep'"
    and "read_token (mint_token dcid ep) ep' odcid = Inr (True, c)"
  shows "drop_scope ep' = drop_scope ep"
proof -
  let ?c = "set_odcid odcid (cid_key dcid @ address_bytes (address ep)) (Length dcid)"
  from assms have p: "port ep' = port ep"
    and chk: "check_address (is_v4 (address ep)) (address_bytes (address ep)) (address ep') ?c
        = Inr (True, c)"
    by (auto simp: read_token_minted split: if_splits)
  have "drop_scope_addr (address ep') = drop_scope_addr (address ep)"
    using chk assms(2,3)
    by (cases "address ep"; cases "address ep'")
       (auto simp: endpoint_wf_def check_address_v4 check_address_v6 memcmp_eq_0)
  with p show ?thesis by (cases ep; cases ep') (simp add: drop_scope_def)
qed

definition ex_ep6 :: "u32 \<Rightarrow> endpoint" where
  "ex_ep6 scope = \<lparr>address = V6 [0,0,0,0,0,0,0,0,0,0,0,0,0,0,0,1] scope, port = 4433\<rparr>"

theorem token_bound_to_endpoint_witness:
  "read_token (mint_token ex_cid (ex_ep6 1)) (ex_ep6 2) ex_cid = Inr (True, ex_cid) \<and>
   drop_scope (ex_ep6 2) = drop_scope (ex_ep6 1)"
proof -
  have wf: "endpoint_wf (ex_ep6 s)" for s by (simp add: endpoint_wf_def ex_ep6_def)
  have "read_token (mint_token ex_cid (ex_ep6 1)) (ex_ep6 2) ex_cid = Inr (True, ex_cid)"
    using wf [of 1] ex_wf(1)
    by (simp add: read_token_minted)
       (simp add: ex_ep6_def check_address_v6 memcmp_eq_0 set_odcid_def memcpy_def ex_cid_def cid_key_def)
  then show ?thesis
    using token_bound_to_endpoint [OF ex_wf(1) wf [of 1] wf [of 2]] by blast
qed

text \<open>
  C29: Exactly when \<open>read_token\<close> does not return: the header is accepted and then either the
  length byte exceeds the 16 bytes of the output id (the copy runs past the array), or the
  family flag names the family the peer's address does not have while the token is long
  enough for it (the address accessor throws).
\<close>

theorem read_token_aborts_iff:
  "read_token token ep odcid = Inl e \<longleftrightarrow>
     9 \<le> length token \<and> token ! 0 = TOKEN_ID \<and> read_uint16_le token 3 = port ep \<and>
     unat (token ! 1) \<le> length token - 5 \<and>
     (if 16 < unat (token ! 1) then e = OutOfBounds
      else e = Uncaught ''bad_address_cast'' \<and> is_v4 (address ep) = (token ! 2 = 0) \<and>
           (if token ! 2 = 0 then 16 else 4) \<le> length token - 5 - unat (token ! 1))"
  by (cases "address ep")
     (auto simp: read_token_eq check_address_def LOCAL_CONN_ID_LEN_def not_less)

text \<open>
  Any peer can send a token on which \<open>read_token\<close> overruns its output: for every
  source endpoint there is a 22-byte token (the server's buffer holds
  \<open>5 + QUICHE_MAX_CONN_ID_LEN + 16\<close>) that makes the copy run past the array.
\<close>

lemma read_token_overflow_reachable:
  "\<exists>token. length token = 22 \<and> read_token token ep odcid = Inl OutOfBounds"
proof -
  let ?t = "TOKEN_ID # 17 # 1 # ucast (port ep) # ucast (drop_bit 8 (port ep)) # replicate 17 0"
  have "length ?t = 22" by simp
  moreover have "read_token ?t ep odcid = Inl OutOfBounds"
    by (simp add: read_token_eq read16_head LOCAL_CONN_ID_LEN_def)
  ultimately show ?thesis by blast
qed

end
