(* ===== verification/QS_Server.thy ===== *)
theory QS_Server
  imports QS_Sender QS_Token
begin

text \<open>
  \<open>QuicSendServer\<close>: the callbacks it gives each connection (with the interpretation of the
  contract \<open>conn_owner\<close>), the handling of datagrams up to the creation of a connection, and
  the API calls. Calls into quiche on raw packets are the parameter \<open>packet_lib\<close>.
\<close>

section \<open>Settings and callbacks\<close>

record server_settings =
  srv_Authorization :: string
  srv_Port :: u16
  srv_KeyPath :: string
  srv_CertPath :: string

text \<open>A default-initialised settings object; the port is indeterminate.\<close>

definition default_server_settings :: "u16 \<Rightarrow> server_settings" where
  "default_server_settings junk =
     \<lparr>srv_Authorization = '''', srv_Port = junk, srv_KeyPath = '''', srv_CertPath = ''''\<rparr>"

definition IsConnected :: "'q qconn \<Rightarrow> bool" where
  "IsConnected c = connected c"

definition MarkClientConnected :: "'q qconn \<Rightarrow> 'q qconn" where
  "MarkClientConnected c = c\<lparr>connected := True\<rparr>"

definition server_on_timeout :: "u64 \<Rightarrow> 'q cst \<Rightarrow> 'q cst run" where
  "server_on_timeout connection_id s =
     Inr (post (new_event\<lparr>ev_Type := TimeoutEvent, ev_ConnectionAssignedId := connection_id\<rparr>) s)"

definition server_on_connect :: "u64 \<Rightarrow> endpoint \<Rightarrow> 'q cst \<Rightarrow> 'q cst run" where
  "server_on_connect connection_id peer s = Inr s"

definition invalid_token_reason :: string where "invalid_token_reason = ''invalid auth token''"

text \<open>
  The inner variable \<open>event\<close> of the source hides the parameter, so the two assignments from
  \<open>event\<close> copy its own default values.
\<close>

definition connect_event :: event where
  "connect_event =
     (let event = new_event\<lparr>ev_Type := ConnectEvent\<rparr>;
          event = event\<lparr>ev_ConnectionAssignedId := ev_ConnectionAssignedId event\<rparr>
      in event\<lparr>ev_PeerEndpoint := ev_PeerEndpoint event\<rparr>)"

definition server_on_data :: "'q quiche \<Rightarrow> string \<Rightarrow> event \<Rightarrow> 'q cst \<Rightarrow> 'q cst run" where
  "server_on_data Q authorization event s =
     (if \<not> IsConnected (cn s) then
        (case ev_Stream event of
           None \<Rightarrow> Inl NullDeref
         | Some stream \<Rightarrow>
             if Authorization stream \<noteq> authorization then
               rbind (Close Q invalid_token_reason (cn s)) (\<lambda>c. Inr (s\<lparr>cn := c\<rparr>))
             else Inr (post event (post connect_event (s\<lparr>cn := MarkClientConnected (cn s)\<rparr>))))
      else Inr (post event s))"

definition server_callbacks :: "'q quiche \<Rightarrow> string \<Rightarrow> 'q callbacks" where
  "server_callbacks Q authorization =
     \<lparr>on_connect = server_on_connect, on_timeout = server_on_timeout,
      on_data = server_on_data Q authorization\<rparr>"

interpretation srv: conn_owner "server_callbacks Q authorization" for Q authorization
proof unfold_locales
  fix i and s s' :: "'a cst"
  assume "on_timeout (server_callbacks Q authorization) i s = Inr s'"
  then show "cn s' = cn s \<and> net (hs s') = net (hs s) \<and> queued s' = queued s @ [timeout_event i]"
    by (auto simp: server_callbacks_def server_on_timeout_def timeout_event_def)
next
  fix i p and s s' :: "'a cst"
  assume "on_connect (server_callbacks Q authorization) i p s = Inr s'"
  then show "quiet (cn s) (cn s') \<and> net (hs s') = net (hs s) \<and>
      (\<exists>es. queued s' = queued s @ es \<and> (\<forall>j. timeouts j es = 0) \<and> (connected (cn s') \<or> es = []))"
    by (auto simp: server_callbacks_def server_on_connect_def intro!: exI [of _ "[]"])
next
  fix e and s s' :: "'a cst"
  assume ok: "on_data (server_callbacks Q authorization) e s = Inr s'" and e: "ev_Type e = DataEvent"
  show "quiet (cn s) (cn s') \<and> net (hs s') = net (hs s) \<and>
      (\<exists>es. queued s' = queued s @ es \<and> (\<forall>j. timeouts j es = 0) \<and> (connected (cn s') \<or> es = []))"
  proof (cases "connected (cn s)")
    case True
    with ok e show ?thesis
      by (auto simp: server_callbacks_def server_on_data_def IsConnected_def)
  next
    case False
    with ok e consider c where "Close Q invalid_token_reason (cn s) = Inr c" "s' = s\<lparr>cn := c\<rparr>"
      | "s' = post e (post connect_event (s\<lparr>cn := MarkClientConnected (cn s)\<rparr>))"
      by (auto simp: server_callbacks_def server_on_data_def IsConnected_def split: option.splits if_splits elim!: rbindE)
    then show ?thesis
      by cases (use e in \<open>auto simp: Close_quiet MarkClientConnected_def quiet_connected connect_event_def
          new_event_def Let_def intro!: exI [of _ "[]"]\<close>)
  qed
next
  fix e and s :: "'a cst"
  assume "connected (cn s)"
  then show "on_data (server_callbacks Q authorization) e s = Inr (post e s)"
    by (simp add: server_callbacks_def server_on_data_def IsConnected_def)
qed

section \<open>The server\<close>

record 'q server =
  settings :: server_settings
  sender :: "'q registry"
  host :: host
  next_assigned_id :: u64

text \<open>
  The constructor passes \<open>settings\<close> on to the socket and does not assign \<open>settings_\<close>.
\<close>

definition new_server :: "server_settings \<Rightarrow> u16 \<Rightarrow> endpoint \<Rightarrow> 'q server" where
  "new_server s junk local =
     \<lparr>settings = default_server_settings junk, sender = new_registry,
      host = \<lparr>net = new_qsocket, local_endpoint = local, mailbox = new_mailbox, closed = False\<rparr>,
      next_assigned_id = 0\<rparr>"

text \<open>
  \<open>quiche_header_info\<close> gets a packet and gives return code, version, source and destination
  ids and the token; the other functions write a packet and return its length. \<open>scid\<close>,
  \<open>dcid\<close> and \<open>odcid\<close> start as uninitialised ids of length 16.
\<close>

record packet_lib =
  p_header_info :: "nat \<Rightarrow> nat \<Rightarrow> nat \<Rightarrow> bytes \<Rightarrow> int \<times> u32 \<times> conn_id \<times> conn_id \<times> bytes"
  p_version_is_supported :: "u32 \<Rightarrow> bool"
  p_negotiate_version :: "bytes \<Rightarrow> bytes \<Rightarrow> nat \<Rightarrow> int \<times> bytes"
  p_retry :: "bytes \<Rightarrow> bytes \<Rightarrow> bytes \<Rightarrow> bytes \<Rightarrow> nat \<Rightarrow> int \<times> bytes"

definition QUICHE_MAX_CONN_ID_LEN :: nat where "QUICHE_MAX_CONN_ID_LEN = 20"
definition MAX_TOKEN_LEN :: nat where "MAX_TOKEN_LEN = 5 + QUICHE_MAX_CONN_ID_LEN + 16"

text \<open>The common end of the two senders of stateless packets.\<close>

definition send_packet :: "int \<times> bytes \<Rightarrow> nat \<Rightarrow> endpoint \<Rightarrow> qsocket \<Rightarrow> qsocket" where
  "send_packet w b peer s =
     (case w of (written, payload) \<Rightarrow>
        if written < 0 then s else Send b peer (fill_buffer b payload written s))"

definition SendVersionNegotiation :: "packet_lib \<Rightarrow> conn_id \<Rightarrow> conn_id \<Rightarrow> endpoint \<Rightarrow> qsocket \<Rightarrow> qsocket" where
  "SendVersionNegotiation P scid dcid_arg peer s =
     (case sock_Allocate s of (b, s) \<Rightarrow>
        send_packet (p_negotiate_version P (cid_key scid) (cid_key dcid_arg) MAX_DATAGRAM_SEND_SIZE) b peer s)"

text \<open>\<open>rd\<close>: the random values for the new source id.\<close>

definition SendRetry :: "packet_lib \<Rightarrow> (nat \<Rightarrow> u32) \<Rightarrow> conn_id \<Rightarrow> conn_id \<Rightarrow> endpoint \<Rightarrow> qsocket \<Rightarrow> qsocket" where
  "SendRetry P rd scid dcid_arg peer s =
     (let new_scid = Randomize rd \<lparr>Id_bytes = [], Length = LOCAL_CONN_ID_LEN\<rparr>;
          token = mint_token dcid_arg peer
      in case sock_Allocate s of (b, s) \<Rightarrow>
           send_packet (p_retry P (cid_key scid) (cid_key dcid_arg) (cid_key new_scid) token
                          MAX_DATAGRAM_SEND_SIZE) b peer s)"

text \<open>\<open>None\<close>: \<open>Accept\<close> failed; the assigned id is used up all the same.\<close>

definition CreateConnection ::
    "'q quiche \<Rightarrow> conn_id \<Rightarrow> conn_id \<Rightarrow> endpoint \<Rightarrow> 'q server \<Rightarrow> (nat option \<times> 'q server) run" where
  "CreateConnection Q dcid_arg odcid peer v =
     (let i = next_assigned_id v + 1;
          v = v\<lparr>next_assigned_id := i\<rparr>
      in case Accept Q peer dcid_arg odcid \<lparr>cn = Initialize True i dcid_arg, hs = host v\<rparr> of
           (ok, s) \<Rightarrow>
             if \<not> ok then Inr (None, v)
             else case make_shared (cn s) (sender v) of (qc, r) \<Rightarrow>
                    rbind (Add qc r) (\<lambda>r. Inr (Some qc, v\<lparr>sender := r\<rparr>)))"

text \<open>A call on a connection object, with the host it shares with the others.\<close>

definition on_object :: "('q cst \<Rightarrow> ('a \<times> 'q cst) run) \<Rightarrow> nat \<Rightarrow> 'q server \<Rightarrow> ('a \<times> 'q server) run" where
  "on_object f ref v =
     rbind (deref ref (sender v)) (\<lambda>c.
     rbind (f \<lparr>cn = c, hs = host v\<rparr>) (\<lambda>(x, s).
       Inr (x, v\<lparr>sender := set_object ref (cn s) (sender v), host := hs s\<rparr>)))"

definition server_deliver ::
    "nat \<Rightarrow> 'q quiche \<Rightarrow> freed_memory \<Rightarrow> bytes \<Rightarrow> endpoint \<Rightarrow> nat \<Rightarrow> 'q server \<Rightarrow> 'q server run" where
  "server_deliver n Q F data peer conn_ptr v =
     rbind (on_object (\<lambda>s. rbind
              (OnDatagram n Q F (server_callbacks Q (srv_Authorization (settings v))) data peer s)
              (\<lambda>s. Inr ((), s))) conn_ptr v)
       (\<lambda>(_, v). Inr v)"

definition server_OnDatagram ::
    "nat \<Rightarrow> 'q quiche \<Rightarrow> packet_lib \<Rightarrow> freed_memory \<Rightarrow> (nat \<Rightarrow> u32) \<Rightarrow> conn_id \<Rightarrow> bytes \<Rightarrow> endpoint \<Rightarrow>
     'q server \<Rightarrow> 'q server run" where
  "server_OnDatagram n Q P F rd odcid data peer v =
     (case p_header_info P LOCAL_CONN_ID_LEN LOCAL_CONN_ID_LEN MAX_TOKEN_LEN data of
        (rc, version, scid, dcid_arg, token) \<Rightarrow>
          if rc < 0 then Inr v
          else case Find_dcid dcid_arg (sender v) of
            Some conn_ptr \<Rightarrow> server_deliver n Q F data peer conn_ptr v
          | None \<Rightarrow>
              if \<not> p_version_is_supported P version then
                Inr (v\<lparr>host := (host v)\<lparr>net := SendVersionNegotiation P scid dcid_arg peer (net (host v))\<rparr>\<rparr>)
              else if token = [] then
                Inr (v\<lparr>host := (host v)\<lparr>net := SendRetry P rd scid dcid_arg peer (net (host v))\<rparr>\<rparr>)
              else rbind (read_token token peer odcid) (\<lambda>(ok, odcid).
                if \<not> ok then Inr v
                else rbind (CreateConnection Q dcid_arg odcid peer v) (\<lambda>(conn_ptr, v).
                  case conn_ptr of None \<Rightarrow> Inr v
                  | Some conn_ptr \<Rightarrow> server_deliver n Q F data peer conn_ptr v)))"

section \<open>API calls\<close>

record body_data =
  bd_ContentType :: "string option"
  bd_Data :: "bytes option"
  bd_Length :: int

definition Empty :: "body_data \<Rightarrow> bool" where
  "Empty b \<longleftrightarrow> bd_Length b = 0 \<or> bd_Data b = None \<or> bd_ContentType b = None"

definition QUICSEND_SERVER_AGENT :: string where "QUICSEND_SERVER_AGENT = ''quicsend-server''"

definition response_headers :: "int \<Rightarrow> string \<Rightarrow> body_data \<Rightarrow> header list" where
  "response_headers status header_info body =
     [('':status'', to_string status),
      (''server'', QUICSEND_SERVER_AGENT),
      (QUICSEND_HEADER_INFO, header_info)] @
     (if Empty body then []
      else [(''content-type'', the (bd_ContentType body)),
            (''content-length'', to_string (bd_Length body))])"

definition Respond ::
    "nat \<Rightarrow> 'q quiche \<Rightarrow> freed_memory \<Rightarrow> u64 \<Rightarrow> int \<Rightarrow> int \<Rightarrow> string \<Rightarrow> body_data \<Rightarrow> 'q server \<Rightarrow> 'q server run" where
  "Respond n Q F connection_id request_id status header_info body v =
     (if closed (host v) then Inr v
      else case Find_id connection_id (sender v) of
        None \<Rightarrow> Inr v
      | Some ref \<Rightarrow>
          rbind (on_object (SendResponse n Q F (server_callbacks Q (srv_Authorization (settings v)))
                   (word_of_int request_id) (response_headers status header_info body)
                   (if Empty body then None else bd_Data body) (if Empty body then 0 else bd_Length body)) ref v)
            (\<lambda>(_, v). Inr v))"

definition exit_reason :: string where "exit_reason = ''exit''"

definition server_Close :: "'q quiche \<Rightarrow> u64 \<Rightarrow> 'q server \<Rightarrow> 'q server run" where
  "server_Close Q connection_id v =
     (case Find_id connection_id (sender v) of
        None \<Rightarrow> Inr v
      | Some ref \<Rightarrow>
          rbind (on_object (\<lambda>s. rbind (Close Q exit_reason (cn s)) (\<lambda>c. Inr ((), s\<lparr>cn := c\<rparr>))) ref v) (\<lambda>(_, v). Inr v))"

definition server_Poll :: "(event \<Rightarrow> 's \<Rightarrow> 's) \<Rightarrow> int \<Rightarrow> 'q server \<Rightarrow> 's \<Rightarrow> ('q server \<times> 's) option" where
  "server_Poll on_event timeout_msec v st =
     (case Poll on_event timeout_msec (mailbox (host v)) st of
        None \<Rightarrow> None
      | Some (mb, st) \<Rightarrow> Some (v\<lparr>host := (host v)\<lparr>mailbox := mb\<rparr>\<rparr>, st))"

section \<open>The registry of a running server\<close>

text \<open>
  \<open>server_ok\<close>: the two maps agree, the assigned ids in use are between 1 and the counter, and
  no connection of another owner is in the registry.
\<close>

definition server_ok :: "'q server \<Rightarrow> bool" where
  "server_ok v \<longleftrightarrow> reg_ok (sender v) \<and>
     (\<forall>i ref. um_find i (connections_by_id (sender v)) = Some ref \<longrightarrow> 0 < i \<and> i \<le> next_assigned_id v)"

lemma server_ok_new: "server_ok (new_server s junk local)"
  by (simp add: server_ok_def new_server_def reg_ok_new) (simp add: new_registry_def um_find_def)

text \<open>A step of one object: it evolves, and nothing else in the registry changes.\<close>

definition object_step :: "nat \<Rightarrow> 'q qconn \<Rightarrow> 'q server \<Rightarrow> 'q server \<Rightarrow> bool" where
  "object_step ref c v v' \<longleftrightarrow>
     server_ok v' \<and> next_assigned_id v' = next_assigned_id v \<and> settings v' = settings v \<and>
     connections (sender v') = connections (sender v) \<and>
     connections_by_id (sender v') = connections_by_id (sender v) \<and>
     (\<forall>x. x \<noteq> ref \<longrightarrow> objects (sender v') x = objects (sender v) x) \<and>
     (\<exists>c'. registered (sender v') ref c' \<and> evolves [] [] \<lparr>cn = c, hs = host v\<rparr> \<lparr>cn = c', hs = host v'\<rparr>)"

lemma object_step_ok: "object_step ref c v v' \<Longrightarrow> server_ok v'"
  by (simp add: object_step_def)

lemma on_object_step:
  assumes "on_object f ref v = Inr (x, v')" and "server_ok v" and "registered (sender v) ref c"
    and ev: "\<And>s s' x. f s = Inr (x, s') \<Longrightarrow> out_ok s \<Longrightarrow> evolves [] [] s s'"
  shows "object_step ref c v v'"
proof -
  have c: "objects (sender v) ref = Some c" using assms(3) by (simp add: registered_def)
  from assms(1) c obtain s where f: "f \<lparr>cn = c, hs = host v\<rparr> = Inr (x, s)"
    and v': "v' = v\<lparr>sender := set_object ref (cn s) (sender v), host := hs s\<rparr>"
    by (auto simp: on_object_def deref_def elim!: rbindE)
  have "out_ok \<lparr>cn = c, hs = host v\<rparr>"
    using assms(2) reg_okD(3) [OF _ c] by (simp add: server_ok_def)
  with ev [OF f] have e: "evolves [] [] \<lparr>cn = c, hs = host v\<rparr> s" and o: "out_ok s"
    by (auto simp: evolves_def)
  have same: "dcid (cn s) = dcid c" "AssignedId (cn s) = AssignedId c" using e by (simp_all add: evolves_def)
  have "reg_ok (set_object ref (cn s) (sender v))"
    using assms(2,3) same o by (intro reg_ok_set_object) (simp_all add: server_ok_def)
  then have "server_ok v'" using assms(2) by (simp add: server_ok_def v' set_object_def)
  moreover have "registered (sender v') ref (cn s)"
    using assms(3) same by (simp add: v' registered_def set_object_def)
  moreover have eq: "\<lparr>cn = cn s, hs = hs s\<rparr> = s" by simp
  have "evolves [] [] \<lparr>cn = c, hs = host v\<rparr> \<lparr>cn = cn s, hs = hs s\<rparr>" by (simp only: eq e)
  ultimately show ?thesis
    by (auto simp: object_step_def v' set_object_def intro!: exI [of _ "cn s"])
qed

lemma Initialize_simps [simp]:
  "outgoing_streams_by_id (Initialize b i d) = []" "incoming_streams_by_id (Initialize b i d) = []"
  "AssignedId (Initialize b i d) = i" "dcid (Initialize b i d) = d" "calls (Initialize b i d) = []"
  "timed_out (Initialize b i d) = False" "connected (Initialize b i d) = False"
  "IsServer (Initialize b i d) = b" "http3 (Initialize b i d) = False" "conns_made (Initialize b i d) = 0"
  "response_cache (Initialize b i d) = []"
  by (simp_all add: Initialize_def)

text \<open>A created connection is registered under a fresh id and its destination id.\<close>

definition created :: "conn_id \<Rightarrow> 'q server \<Rightarrow> nat option \<Rightarrow> 'q server \<Rightarrow> bool" where
  "created d v res v' \<longleftrightarrow>
     server_ok v' \<and> next_assigned_id v' = next_assigned_id v + 1 \<and> settings v' = settings v \<and> host v' = host v \<and>
     (case res of None \<Rightarrow> sender v' = sender v
      | Some ref \<Rightarrow> (\<exists>c. registered (sender v') ref c \<and> dcid c = d \<and> AssignedId c = next_assigned_id v + 1) \<and>
          (\<forall>x. x \<noteq> ref \<longrightarrow> objects (sender v') x = objects (sender v) x) \<and> objects (sender v) ref = None)"

lemma word_less_Suc: "i \<noteq> - 1 \<Longrightarrow> i < i + (1 :: 'a :: len word)"
  using unatSuc [of i] by (simp add: word_less_nat_alt add.commute eq_neg_iff_add_eq_0)

lemma CreateConnection_spec:
  assumes "CreateConnection Q d odcid peer v = Inr (res, v')" and "server_ok v"
    and "Find_dcid d (sender v) = None" and "next_assigned_id v \<noteq> - 1"
  shows "created d v res v'"
proof -
  let ?i = "next_assigned_id v + 1"
  have i: "next_assigned_id v < ?i" using assms(4) by (rule word_less_Suc)
  obtain ok s where a: "Accept Q peer d odcid \<lparr>cn = Initialize True ?i d, hs = host v\<rparr> = (ok, s)" by fastforce
  have s: "dcid (cn s) = d" "AssignedId (cn s) = ?i" "outgoing_streams_by_id (cn s) = []"
    using a by (auto simp: Accept_def Let_def split: option.splits)
  have up: "0 < j \<and> j \<le> ?i" if "um_find j (connections_by_id (sender v)) = Some x" for j x
    using assms(2) that i unfolding server_ok_def by (meson order.strict_implies_order order_trans)
  have fresh: "um_find ?i (connections_by_id (sender v)) = None"
    using assms(2) i unfolding server_ok_def by (meson leD not_None_eq)
  show ?thesis
  proof (cases ok)
    case False
    with assms(1) a have "res = None" "v' = v\<lparr>next_assigned_id := ?i\<rparr>"
      by (auto simp: CreateConnection_def Let_def)
    with assms(2) up show ?thesis by (auto simp: created_def server_ok_def)
  next
    case True
    obtain ref r1 where m: "make_shared (cn s) (sender v) = (ref, r1)" by fastforce
    with True assms(1) a obtain r2 where ad: "Add ref r1 = Inr r2"
      and res: "res = Some ref" "v' = v\<lparr>next_assigned_id := ?i, sender := r2\<rparr>"
      by (auto simp: CreateConnection_def Let_def elim!: rbindE)
    have ok: "reg_ok (sender v)" using assms(2) by (simp add: server_ok_def)
    have oo: "outgoing_ok (outgoing_streams_by_id (cn s))" by (simp add: s)
    note ms = reg_ok_make_shared [OF ok oo m]
    have n: "um_find (cid_key (dcid (cn s))) (connections r1) = None"
      "um_find (AssignedId (cn s)) (connections_by_id r1) = None"
      using assms(3) fresh by (simp_all add: ms s Find_dcid_def)
    note added = reg_ok_Add [OF ms(1,2) n ad]
    have "connections_by_id r2 = um_put ?i ref (connections_by_id (sender v))"
      using ad ms(2) by (auto simp: Add_def deref_def s ms(4))
    then have "server_ok v'" using added(1) up i word_gt_0 [of ?i]
      by (auto simp: server_ok_def res um_find_put split: if_splits)
    moreover have "objects (sender v) ref = None" "\<forall>x. x \<noteq> ref \<longrightarrow> objects r1 x = objects (sender v) x"
      using m ok by (auto simp: make_shared_def reg_ok_def)
    ultimately show ?thesis using added s by (auto simp: created_def res)
  qed
qed

text \<open>
  A server's steps: a datagram, an API call, a timer of a connection, a pass of the sender's
  thread, a poll, a completed send. The hypothesis on the counter says that fewer than
  \<open>2 ^ 64 - 1\<close> connections were created before; \<open>benign\<close> that the erased node still holds
  its pointer when it is read.
\<close>

abbreviation server_cb :: "'q quiche \<Rightarrow> 'q server \<Rightarrow> 'q callbacks" where
  "server_cb Q v \<equiv> server_callbacks Q (srv_Authorization (settings v))"

inductive server_step :: "'q quiche \<Rightarrow> packet_lib \<Rightarrow> freed_memory \<Rightarrow> 'q server \<Rightarrow> 'q server \<Rightarrow> bool" for Q P F where
  srv_datagram: "server_OnDatagram n Q P F rd odcid data peer v = Inr v' \<Longrightarrow> next_assigned_id v \<noteq> - 1 \<Longrightarrow>
    server_step Q P F v v'"
| srv_respond: "Respond n Q F i req status info body v = Inr v' \<Longrightarrow> bd_Length body < 2 ^ 31 \<Longrightarrow>
    server_step Q P F v v'"
| srv_close: "server_Close Q i v = Inr v' \<Longrightarrow> server_step Q P F v v'"
| srv_timer: "on_object (\<lambda>s. rbind (OnQuicheTimer n Q F (server_cb Q v) ec s) (\<lambda>s. Inr ((), s))) ref v = Inr ((), v') \<Longrightarrow>
    referenced ref (sender v) \<Longrightarrow> server_step Q P F v v'"
| srv_loop: "Loop_round n Q F (server_cb Q v) buffer (sender v) (host v) = Inr ((interval, buffer'), r, h) \<Longrightarrow>
    benign F \<Longrightarrow> server_step Q P F v (v\<lparr>sender := r, host := h\<rparr>)"
| srv_host: "server_step Q P F v (v\<lparr>host := h\<rparr>)"

lemma referenced_registered:
  assumes "reg_ok r" and "referenced ref r"
  obtains c where "registered r ref c"
  using assms unfolding referenced_def reg_ok_def by (auto simp flip: um_find_iff) blast+

lemma Find_registered:
  assumes "server_ok v"
  shows "Find_dcid d (sender v) = Some ref \<Longrightarrow> \<exists>c. registered (sender v) ref c \<and> cid_key (dcid c) = cid_key d"
    and "Find_id i (sender v) = Some ref \<Longrightarrow> \<exists>c. registered (sender v) ref c \<and> AssignedId c = i"
  using assms by (auto simp: server_ok_def Find_dcid_def Find_id_def dest: reg_okD)

text \<open>What a datagram does: nothing, a stateless reply, or a delivery to one connection.\<close>

lemma server_OnDatagram_cases:
  assumes "server_OnDatagram n Q P F rd odcid data peer v = Inr v'"
  obtains (dropped) "v' = v"
  | (reply) m where "v' = v\<lparr>host := (host v)\<lparr>net := m\<rparr>\<rparr>"
  | (known) rc version scid d token ref where
        "p_header_info P LOCAL_CONN_ID_LEN LOCAL_CONN_ID_LEN MAX_TOKEN_LEN data = (rc, version, scid, d, token)"
      and "Find_dcid d (sender v) = Some ref" and "server_deliver n Q F data peer ref v = Inr v'"
  | (created) rc version scid d token odcid' res v1 where
        "p_header_info P LOCAL_CONN_ID_LEN LOCAL_CONN_ID_LEN MAX_TOKEN_LEN data = (rc, version, scid, d, token)"
      and "Find_dcid d (sender v) = None" and "token \<noteq> []"
      and "read_token token peer odcid = Inr (True, odcid')"
      and "CreateConnection Q d odcid' peer v = Inr (res, v1)"
      and "case res of None \<Rightarrow> v' = v1 | Some ref \<Rightarrow> server_deliver n Q F data peer ref v1 = Inr v'"
proof -
  obtain rc version scid d token where
      h: "p_header_info P LOCAL_CONN_ID_LEN LOCAL_CONN_ID_LEN MAX_TOKEN_LEN data = (rc, version, scid, d, token)"
    by (metis surj_pair)
  show ?thesis
  proof (cases "rc < 0")
    case True
    with assms h show ?thesis by (intro dropped) (simp add: server_OnDatagram_def)
  next
    case rc: False
    show ?thesis
    proof (cases "Find_dcid d (sender v)")
      case (Some ref)
      with assms h rc show ?thesis by (intro known) (simp_all add: server_OnDatagram_def)
    next
      case None
      show ?thesis
      proof (cases "p_version_is_supported P version \<and> token \<noteq> []")
        case False
        with assms h rc None show ?thesis
          by (cases "p_version_is_supported P version") (auto simp: server_OnDatagram_def intro!: reply)
      next
        case True
        with assms h rc None obtain ok odcid' where r: "read_token token peer odcid = Inr (ok, odcid')"
          and rest: "(if \<not> ok then Inr v
            else rbind (CreateConnection Q d odcid' peer v) (\<lambda>(conn_ptr, v).
              case conn_ptr of None \<Rightarrow> Inr v | Some conn_ptr \<Rightarrow> server_deliver n Q F data peer conn_ptr v)) = Inr v'"
          by (auto simp: server_OnDatagram_def elim!: rbind_pairE)
        show ?thesis
        proof (cases ok)
          case False
          with rest show ?thesis by (intro dropped) simp
        next
          case ok: True
          with rest obtain res v1 where c: "CreateConnection Q d odcid' peer v = Inr (res, v1)"
            and "(case res of None \<Rightarrow> Inr v1 | Some conn_ptr \<Rightarrow> server_deliver n Q F data peer conn_ptr v1) = Inr v'"
            by (auto elim!: rbind_pairE)
          then have "case res of None \<Rightarrow> v' = v1 | Some ref \<Rightarrow> server_deliver n Q F data peer ref v1 = Inr v'"
            by (cases res) simp_all
          with h None True r ok c show ?thesis by (intro created) simp_all
        qed
      qed
    qed
  qed
qed

lemma server_deliver_on_object:
  "server_deliver n Q F data peer ref v = Inr v' \<Longrightarrow>
   on_object (\<lambda>s. rbind (OnDatagram n Q F (server_cb Q v) data peer s) (\<lambda>s. Inr ((), s))) ref v = Inr ((), v')"
  by (auto simp: server_deliver_def elim!: rbind_pairE)

lemma datagram_evolves:
  "rbind (OnDatagram n Q F (server_cb Q v) data peer s) (\<lambda>s. Inr ((), s)) = Inr (x, s') \<Longrightarrow> out_ok s \<Longrightarrow>
   evolves [] [] s s'"
  by (auto elim!: rbindE intro: srv.OnDatagram_evolves)

lemma server_deliver_step:
  assumes "server_deliver n Q F data peer ref v = Inr v'" and "server_ok v" and "registered (sender v) ref c"
  shows "object_step ref c v v'"
  by (rule on_object_step [OF server_deliver_on_object [OF assms(1)] assms(2,3)]) (rule datagram_evolves)

lemma server_OnDatagram_ok:
  assumes "server_OnDatagram n Q P F rd odcid data peer v = Inr v'" and "server_ok v" and "next_assigned_id v \<noteq> - 1"
  shows "server_ok v'"
  using assms(1)
proof (cases rule: server_OnDatagram_cases)
  case dropped
  with assms(2) show ?thesis by simp
next
  case (reply m)
  with assms(2) show ?thesis by (simp add: server_ok_def)
next
  case (known rc version scid d token ref)
  with Find_registered(1) [OF assms(2)] server_deliver_step [OF _ assms(2)] object_step_ok show ?thesis by blast
next
  case (created rc version scid d token odcid' res v1)
  have c: "created d v res v1" by (rule CreateConnection_spec [OF created(5) assms(2) created(2) assms(3)])
  show ?thesis
  proof (cases res)
    case None
    with created c show ?thesis by (simp add: created_def)
  next
    case (Some ref)
    with c obtain d where "server_ok v1" "registered (sender v1) ref d" by (auto simp: created_def)
    with created(6) Some server_deliver_step object_step_ok show ?thesis by fastforce
  qed
qed

lemma server_step_ok: "server_step Q P F v v' \<Longrightarrow> server_ok v \<Longrightarrow> server_ok v'"
proof (induction rule: server_step.induct)
  case (srv_datagram n rd odcid data peer v v')
  then show ?case by (blast intro: server_OnDatagram_ok)
next
  case (srv_respond n i req status info body v v')
  show ?case
  proof (cases "closed (host v) \<or> Find_id i (sender v) = None")
    case True
    with srv_respond show ?thesis by (auto simp: Respond_def split: if_splits)
  next
    case False
    then obtain ref where f: "Find_id i (sender v) = Some ref" by auto
    with srv_respond(1) False obtain ok where
        o: "on_object (SendResponse n Q F (server_cb Q v)
                   (word_of_int req) (response_headers status info body)
                   (if Empty body then None else bd_Data body) (if Empty body then 0 else bd_Length body)) ref v = Inr (ok, v')"
      by (auto simp: Respond_def elim!: rbind_pairE)
    from Find_registered(2) [OF srv_respond(3) f] obtain c where "registered (sender v) ref c" by blast
    have b: "(if Empty body then 0 else bd_Length body) < 2 ^ 31" using srv_respond(2) by simp
    have "object_step ref c v v'"
      by (rule on_object_step [OF o srv_respond(3) \<open>registered (sender v) ref c\<close>])
         (rule srv.SendResponse_evolves [OF _ _ b])
    then show ?thesis by (rule object_step_ok)
  qed
next
  case (srv_close i v v')
  show ?case
  proof (cases "Find_id i (sender v)")
    case None
    with srv_close show ?thesis by (simp add: server_Close_def)
  next
    case (Some ref)
    with srv_close(1) have
        o: "on_object (\<lambda>s. rbind (Close Q exit_reason (cn s)) (\<lambda>c. Inr ((), s\<lparr>cn := c\<rparr>))) ref v = Inr ((), v')"
      by (auto simp: server_Close_def elim!: rbind_pairE)
    from Find_registered(2) [OF srv_close(2) Some] obtain c where "registered (sender v) ref c" by blast
    have "object_step ref c v v'"
      by (rule on_object_step [OF o srv_close(2) \<open>registered (sender v) ref c\<close>])
         (auto elim!: rbindE intro: evolves_quiet Close_quiet)
    then show ?thesis by (rule object_step_ok)
  qed
next
  case (srv_timer n v ec ref v')
  have "reg_ok (sender v)" using srv_timer(3) by (simp add: server_ok_def)
  from referenced_registered [OF this srv_timer(2)] obtain c where "registered (sender v) ref c" .
  have "object_step ref c v v'"
    by (rule on_object_step [OF srv_timer(1,3) \<open>registered (sender v) ref c\<close>])
       (auto elim!: rbindE intro: srv.OnQuicheTimer_evolves)
  then show ?case by (rule object_step_ok)
next
  case (srv_loop n v buffer interval buffer' r h)
  have "reg_ok (sender v)" using srv_loop(3) by (simp add: server_ok_def)
  from srv.Loop_round_spec [OF srv_loop(1,2) this] obtain freed where
      sw: "swept (sender v) r (connections (sender v)) freed" ..
  then have r: "reg_ok r" by (simp add: swept_def)
  have mono: "um_find i (connections_by_id (sender v)) = Some x" if "um_find i (connections_by_id r) = Some x" for i x
    using sw that by (simp add: swept_def)
  with srv_loop(3) r show ?case by (auto simp: server_ok_def)
next
  case (srv_host v h)
  then show ?case by (simp add: server_ok_def)
qed

abbreviation server_steps :: "'q quiche \<Rightarrow> packet_lib \<Rightarrow> freed_memory \<Rightarrow> 'q server \<Rightarrow> 'q server \<Rightarrow> bool" where
  "server_steps Q P F \<equiv> rtranclp (server_step Q P F)"

lemma server_steps_ok: "server_steps Q P F v v' \<Longrightarrow> server_ok v \<Longrightarrow> server_ok v'"
  by (induction rule: rtranclp_induct) (auto intro: server_step_ok)

end
