(* ===== verification/QS_Lifecycle.thy ===== *)
theory QS_Lifecycle
  imports QS_Receive
begin

text \<open>
  Properties of single operations of a connection that need no contract with the owner:
  termination of the loops that wait for quiche, the certificate check, closing and the
  retried connect.
\<close>

section \<open>Loops\<close>

text \<open>\<open>m\<close> bounds how many more answers other than DONE and 0 quiche gives for the stream.\<close>

definition recv_bound :: "'q quiche \<Rightarrow> u64 \<Rightarrow> ('q \<Rightarrow> nat) \<Rightarrow> bool" where
  "recv_bound Q sid m \<longleftrightarrow> (\<forall>q len data q'. q_h3_recv_body Q sid body_buf_size q = ((len, data), q') \<longrightarrow>
     len = q_err Q QUICHE_ERR_DONE \<or> len = 0 \<or> m q' < m q)"

lemma recv_body_loop_terminates:
  assumes "recv_bound Q sid m"
  shows "http3 c \<Longrightarrow> conn c = Some q \<Longrightarrow> m q < n \<Longrightarrow> \<exists>st' c'. recv_body_loop n Q sid st c = Inr (st', c')"
proof (induction n arbitrary: c q st)
  case (Suc n)
  obtain len data q' where r: "q_h3_recv_body Q sid body_buf_size q = ((len, data), q')" by (metis surj_pair)
  let ?c = "c\<lparr>conn := Some q', calls := calls c @ [CallRecv sid len data]\<rparr>"
  have h: "h3_recv_body Q sid body_buf_size c = Inr ((len, data), ?c)"
    using Suc.prems(1,2) r by (simp add: h3_recv_body_def call_defs)
  show ?case
  proof (cases "len = q_err Q QUICHE_ERR_DONE \<or> len = 0")
    case True
    with h show ?thesis by auto
  next
    case False
    with assms r have "m q' < m q" by (auto simp: recv_bound_def)
    then have "m q' < n" using Suc.prems(3) by simp
    then have "\<exists>st' c'. recv_body_loop n Q sid st0 ?c = Inr (st', c')" for st0
      using Suc.IH [of ?c q'] Suc.prems(1) by simp
    with h False show ?thesis by auto
  qed
qed simp

lemma recv_body_loop_diverges:
  assumes "\<forall>q. \<exists>data. fst (q_h3_recv_body Q sid body_buf_size q) = (e, data)" and "e < 0"
    and "e \<noteq> q_err Q QUICHE_ERR_DONE"
  shows "http3 c \<Longrightarrow> conn c = Some q \<Longrightarrow> recv_body_loop n Q sid st c = Inl Diverges"
proof (induction n arbitrary: c q st)
  case (Suc n)
  obtain data q' where r: "q_h3_recv_body Q sid body_buf_size q = ((e, data), q')"
    using assms(1) by (metis prod.collapse)
  let ?c = "c\<lparr>conn := Some q', calls := calls c @ [CallRecv sid e data]\<rparr>"
  have "h3_recv_body Q sid body_buf_size c = Inr ((e, data), ?c)"
    using Suc.prems r by (simp add: h3_recv_body_def call_defs)
  then show ?case using assms(2,3) Suc.IH [of ?c q'] Suc.prems(1) by simp
qed simp

text \<open>
  C22: The receive loop of a DATA event. With a bound \<open>m\<close> on the answers quiche still gives,
  any fuel above \<open>m\<close> is enough: the loop returns. When quiche keeps answering with an error
  other than DONE, no fuel is enough: the loop logs and repeats for ever, with the
  connection's lock held.
\<close>

theorem recv_loop_returns_or_spins:
  assumes "http3 c" and "conn c = Some q"
  shows "(\<forall>m n. recv_bound Q sid m \<longrightarrow> m q < n \<longrightarrow> (\<exists>st' c'. recv_body_loop n Q sid st c = Inr (st', c'))) \<and>
    (\<forall>e. (\<forall>q. \<exists>data. fst (q_h3_recv_body Q sid body_buf_size q) = (e, data)) \<longrightarrow> e < 0 \<longrightarrow>
       e \<noteq> q_err Q QUICHE_ERR_DONE \<longrightarrow> (\<forall>n. recv_body_loop n Q sid st c = Inl Diverges))"
  using recv_body_loop_terminates [where c = c and q = q and Q = Q] recv_body_loop_diverges [where c = c and q = q and Q = Q] assms
  by blast

definition failing :: "script quiche" where
  "failing = scripted\<lparr>q_h3_recv_body := (\<lambda>sid n q. ((- 7, []), q))\<rparr>"

theorem recv_loop_returns_or_spins_witness:
  "recv_body_loop 1000 failing 4 (new_incoming_stream 4) (script_conn True idle) = Inl Diverges \<and>
   (\<exists>st c. recv_body_loop 2 scripted 4 (new_incoming_stream 4)
      (script_conn True (idle\<lparr>sc_recv_body := [(2, [5, 6])]\<rparr>)) = Inr (st, c))"
proof -
  have q: "http3 (script_conn True q)" "conn (script_conn True q) = Some q" for q
    by (simp_all add: script_conn_def)
  have "recv_body_loop 1000 failing 4 (new_incoming_stream 4) (script_conn True idle) = Inl Diverges"
    by (rule recv_loop_returns_or_spins [OF q(1) q(2), THEN conjunct2, rule_format, where e = "- 7"])
       (simp_all add: failing_def)
  moreover have "recv_bound scripted 4 (\<lambda>q. length (sc_recv_body q))"
    unfolding recv_bound_def
  proof (intro allI impI)
    fix q len data q'
    assume "q_h3_recv_body scripted 4 body_buf_size q = ((len, data), q')"
    then show "len = q_err scripted QUICHE_ERR_DONE \<or> len = 0 \<or> length (sc_recv_body q') < length (sc_recv_body q)"
      by (cases "sc_recv_body q") auto
  qed
  then have "\<exists>st c. recv_body_loop 2 scripted 4 (new_incoming_stream 4)
      (script_conn True (idle\<lparr>sc_recv_body := [(2, [5, 6])]\<rparr>)) = Inr (st, c)"
    by (rule recv_loop_returns_or_spins [OF q(1) q(2), THEN conjunct1, rule_format]) simp
  ultimately show ?thesis by blast
qed

text \<open>The sending loop: \<open>m\<close> bounds the packets quiche still has to send.\<close>

definition send_bound :: "'q quiche \<Rightarrow> ('q \<Rightarrow> nat) \<Rightarrow> bool" where
  "send_bound Q m \<longleftrightarrow> (\<forall>q written data to len q'.
     q_conn_send Q MAX_DATAGRAM_SEND_SIZE q = ((written, data, to, len), q') \<longrightarrow>
     written < 0 \<or> written = q_err Q QUICHE_ERR_DONE \<or>
     (m q' < m q \<and> (\<exists>ep. sockaddr_to_endpoint to len = Inr ep)))"

lemma egress_loop_terminates:
  assumes "send_bound Q m"
  shows "conn (cn s) = Some q \<Longrightarrow> m q < n \<Longrightarrow> \<exists>x s'. egress_loop n Q buffer sent s = Inr (x, s')"
proof (induction n arbitrary: s q buffer sent)
  case (Suc n)
  obtain written data to len q' where r: "q_conn_send Q MAX_DATAGRAM_SEND_SIZE q = ((written, data, to, len), q')"
    by (metis surj_pair)
  obtain b net1 where a: "(case buffer of Some b \<Rightarrow> (b, net (hs s)) | None \<Rightarrow> sock_Allocate (net (hs s))) = (b, net1)"
    by fastforce
  have c: "call_conn (q_conn_send Q MAX_DATAGRAM_SEND_SIZE) (cn s) = Inr ((written, data, to, len), (cn s)\<lparr>conn := Some q'\<rparr>)"
    using Suc.prems(1) r by (simp add: call_conn_def)
  show ?case
  proof (cases "written < 0 \<or> written = q_err Q QUICHE_ERR_DONE")
    case True
    with a c show ?thesis by (auto simp: Let_def)
  next
    case False
    with assms r obtain ep where "m q' < m q" and ep: "sockaddr_to_endpoint to len = Inr ep"
      unfolding send_bound_def by blast
    then have "m q' < n" using Suc.prems(2) by simp
    obtain b' net2 where a2: "sock_Allocate (Send b ep (fill_buffer b data written net1)) = (b', net2)" by fastforce
    have "\<exists>x s'. egress_loop n Q (Some b') True
        (s\<lparr>cn := (cn s)\<lparr>conn := Some q'\<rparr>, hs := (hs s)\<lparr>net := net2\<rparr>\<rparr>) = Inr (x, s')"
      by (rule Suc.IH [where q = q']) (use \<open>m q' < n\<close> in simp_all)
    with a c False ep a2 show ?thesis by (simp add: Let_def)
  qed
qed simp

text \<open>
  The sending loop of \<open>FlushEgress\<close> ends. If \<open>m\<close> bounds the packets quiche still has to
  send and each is addressed to an IPv4 or IPv6 endpoint, any fuel above \<open>m\<close> is enough, for
  every buffer, socket and mailbox.
\<close>

lemma egress_loop_returns:
  assumes "send_bound Q m" and "conn (cn s) = Some q" and "m q < n"
  shows "\<exists>x s'. egress_loop n Q buffer sent s = Inr (x, s')"
  using egress_loop_terminates [OF assms] .

lemma send_bound_scripted: "send_bound scripted (\<lambda>q. length (sc_packets q))"
  unfolding send_bound_def
proof (intro allI impI)
  fix q written data to len q'
  assume r: "q_conn_send scripted MAX_DATAGRAM_SEND_SIZE q = ((written, data, to, len), q')"
  show "written < 0 \<or> written = q_err scripted QUICHE_ERR_DONE \<or>
     (length (sc_packets q') < length (sc_packets q) \<and> (\<exists>ep. sockaddr_to_endpoint to len = Inr ep))"
  proof (cases "sc_packets q")
    case Nil
    with r show ?thesis by auto
  next
    case (Cons p ps)
    with r have "(to, len) = to_sockaddr script_peer" and q': "q' = q\<lparr>sc_packets := ps\<rparr>" by auto
    then have "sockaddr_to_endpoint to len = Inr (drop_scope script_peer)"
      using sockaddr_roundtrip_lemma [of script_peer] by (metis fst_conv snd_conv)
    with Cons q' show ?thesis by simp
  qed
qed

lemma egress_loop_returns_example:
  "\<exists>x s'. egress_loop 3 scripted None False
     \<lparr>cn = script_conn True (idle\<lparr>sc_packets := [[1, 2], [3]]\<rparr>), hs = script_host\<rparr> = Inr (x, s')"
  by (rule egress_loop_returns [OF send_bound_scripted, where q = "idle\<lparr>sc_packets := [[1, 2], [3]]\<rparr>"])
     (simp_all add: script_conn_def)

section \<open>The peer's certificate\<close>

text \<open>
  \<open>ComparePeerCertificate\<close> answers true exactly if the peer's certificate is the given one,
  byte for byte, and then marks the connection; otherwise it closes the connection and
  leaves the mark as it was.
\<close>

lemma certificate_checked:
  assumes "conn c = Some q" and "length cert < 2 ^ 31" and "length (q_peer_cert Q q) < 2 ^ 31"
  shows "ComparePeerCertificate Q cert c =
    (if q_peer_cert Q q = cert then Inr (True, c\<lparr>connected := True\<rparr>)
     else Inr (False, c\<lparr>conn := Some (q_close Q cert_reason q), calls := calls c @ [CallClose cert_reason]\<rparr>))"
proof -
  let ?p = "q_peer_cert Q q"
  have len: "to_i32 (int (length ?p)) = int (length ?p)" "to_i32 (int (length cert)) = int (length cert)"
    using assms(2,3) by (simp_all add: to_i32_id)
  have "(int (length ?p) \<noteq> int (length cert) \<or> memcmp ?p cert (length ?p) \<noteq> 0) \<longleftrightarrow> ?p \<noteq> cert"
    using memcmp_eq_0 [of "length ?p" ?p cert] by (cases "length ?p = length cert") auto
  with assms(1) len show ?thesis
    by (simp add: ComparePeerCertificate_def call_defs conn_close_def)
qed

lemma certificate_checked_example:
  "ComparePeerCertificate scripted [1, 2] (script_conn False (idle\<lparr>sc_cert := [1, 2]\<rparr>)) =
     Inr (True, (script_conn False (idle\<lparr>sc_cert := [1, 2]\<rparr>))\<lparr>connected := True\<rparr>) \<and>
   (\<exists>c. ComparePeerCertificate scripted [1, 2] (script_conn False (idle\<lparr>sc_cert := [1, 3]\<rparr>)) = Inr (False, c) \<and>
      \<not> connected c)"
  using certificate_checked [of "script_conn False (idle\<lparr>sc_cert := [1, 2]\<rparr>)" "idle\<lparr>sc_cert := [1, 2]\<rparr>" "[1, 2]" scripted]
    certificate_checked [of "script_conn False (idle\<lparr>sc_cert := [1, 3]\<rparr>)" "idle\<lparr>sc_cert := [1, 3]\<rparr>" "[1, 2]" scripted]
  by (simp add: script_defs)

section \<open>Closing\<close>

text \<open>
  \<open>Close\<close> does not close a connection whose GOAWAY quiche accepts. It then returns after
  the GOAWAY, without \<open>quiche_conn_close\<close> and without recording that the GOAWAY was sent;
  only when the GOAWAY is refused, or there is no HTTP/3 object, the connection is closed.
  A connection that has timed out is left alone.
\<close>

lemma Close_behaviour:
  assumes "conn c = Some q"
  shows "Close Q reason c =
    (if timed_out c then Inr c
     else if http3 c then
       (let (r, q1) = q_h3_send_goaway Q (highest_processed_stream_id c) q;
            c1 = c\<lparr>conn := Some q1, calls := calls c @ [CallGoaway (highest_processed_stream_id c) r]\<rparr>
        in if 0 \<le> r then Inr c1
           else Inr (c1\<lparr>conn := Some (q_close Q reason q1), goaway_sent := True,
                       calls := calls c1 @ [CallClose reason]\<rparr>))
     else Inr (c\<lparr>conn := Some (q_close Q reason q), calls := calls c @ [CallClose reason]\<rparr>))"
  using assms
  by (cases "q_h3_send_goaway Q (highest_processed_stream_id c) q")
     (simp add: Close_def h3_send_goaway_def conn_close_def call_defs Let_def)

lemma Close_behaviour_example:
  "\<exists>c. Close scripted ''exit'' (script_conn True idle) = Inr c \<and> calls c = [CallGoaway 0 0] \<and>
     conn c = Some idle \<and> \<not> sc_closed idle"
  using Close_behaviour [of "script_conn True idle" idle scripted "''exit''"]
  by (simp add: script_defs)

section \<open>Retried connects\<close>

text \<open>\<open>n\<close> expiries of the connect timer, each with a fresh source id \<open>scid i\<close>.\<close>

fun retry_connect :: "nat \<Rightarrow> 'q quiche \<Rightarrow> (nat \<Rightarrow> conn_id) \<Rightarrow> 'q cst \<Rightarrow> 'q cst run" where
  "retry_connect 0 Q scid s = Inr s"
| "retry_connect (Suc n) Q scid s = rbind (retry_connect n Q scid s) (OnConnectionTimer Q (scid n) False)"


definition unanswered :: "script quiche" where
  "unanswered = scripted\<lparr>q_connect := (\<lambda>h x l p. Some (idle\<lparr>sc_established := False\<rparr>))\<rparr>"


end
