(* ===== verification/QS_ServerProps.thy ===== *)
theory QS_ServerProps
  imports QS_Server QS_Lifecycle
begin

text \<open>
  Properties of the server and of the connections it owns: the registry, the admission of
  new peers, authentication, sending of responses, and the runs of a connection.
\<close>

section \<open>A small server for the witnesses\<close>

text \<open>Every packet is for \<open>ex_cid\<close>; the first byte says whether it carries a token.\<close>

definition ex_packets :: packet_lib where
  "ex_packets =
     \<lparr>p_header_info = (\<lambda>s d t data. (0, 1, ex_cid, ex_cid, if hd data = 1 then mint_token ex_cid ex_ep else [])),
      p_version_is_supported = (\<lambda>v. v = 1),
      p_negotiate_version = (\<lambda>s d n. (1, [0])),
      p_retry = (\<lambda>s d n t k. (2, [1, 2]))\<rparr>"

definition ex_settings :: server_settings where
  "ex_settings = \<lparr>srv_Authorization = ''Bearer secret'', srv_Port = 443, srv_KeyPath = ''k'', srv_CertPath = ''c''\<rparr>"

definition ex_server :: "script server" where
  "ex_server = new_server ex_settings 0 script_peer"

lemma ex_token: "read_token (mint_token ex_cid ex_ep) ex_ep ex_cid = Inr (True, ex_cid)"
  by (simp add: read_token_minted ex_wf)
     (simp add: ex_ep_def check_address_v4 set_odcid_def memcpy_def ex_cid_def cid_key_def)

lemma mint_token_nonempty [simp]: "mint_token ex_cid ex_ep \<noteq> []"
  by (simp add: mint_token_layout ex_wf)

lemmas server_eval = ex_server_def new_server_def new_registry_def Find_dcid_def Find_id_def um_find_def
  CreateConnection_def Accept_def make_shared_def Add_def deref_def um_put_def server_deliver_def on_object_def
  set_object_def Initialize_def call_defs Let_def

lemmas datagram_eval = OnDatagram_def datagram_established_def datagram_end_def server_callbacks_def
  server_on_connect_def FlushEgress_local_def FlushEgress_def FlushCachedResponses_def FlushTransfers_def
  TickTimeout_def sock_Allocate_def Allocate_def Allocate_seen_def new_qsocket_def new_send_allocator_def
  sock_Free_def Free_def

lemma ex_server_accepts:
  "\<exists>v. server_OnDatagram 3 scripted ex_packets kept_memory (\<lambda>_. 0) ex_cid [1] ex_ep ex_server = Inr v \<and>
     Find_id 1 (sender v) = Some 0 \<and> Find_dcid ex_cid (sender v) = Some 0"
  by (simp add: server_OnDatagram_def ex_packets_def server_eval ex_token) (simp add: datagram_eval server_eval idle_def numeral_3_eq_3)

section \<open>The registry\<close>


lemma ex_server_steps:
  assumes "server_OnDatagram 3 scripted ex_packets kept_memory (\<lambda>_. 0) ex_cid [1] ex_ep ex_server = Inr v"
  shows "server_steps scripted ex_packets kept_memory (new_server ex_settings 0 script_peer) v"
  using srv_datagram [OF assms] by (simp add: ex_server_def new_server_def r_into_rtranclp)



definition ex_registry :: "bool \<Rightarrow> script registry" where
  "ex_registry gone = \<lparr>objects = [0 \<mapsto> (script_conn True idle)\<lparr>timed_out := gone\<rparr>], next_ref = 1,
     connections = [(replicate 16 7, 0)], connections_by_id = [(1, 0)]\<rparr>"

definition ex_dcid :: conn_id where "ex_dcid = \<lparr>Id_bytes = replicate 16 7, Length = 16\<rparr>"

lemma ex_registry_ok: "reg_ok (ex_registry gone)"
  by (auto simp: reg_ok_def ex_registry_def registered_def um_inv_def um_find_def script_conn_def cid_key_def
      Initialize_def split: if_splits)

lemma kept_benign: "benign kept_memory"
  by (simp add: benign_def)

lemma ex_round:
  "\<exists>x r h. Loop_round 3 scripted kept_memory (server_callbacks scripted '''') None (ex_registry gone) script_host = Inr (x, r, h)"
  by (cases gone)
     (simp_all add: Loop_round_def ex_registry_def deref_def script_conn_def script_host_def datagram_eval server_eval
      idle_def numeral_3_eq_3)


text \<open>
  What the read of the erased node can cost. If it gives another value than the assigned
  id that was there, one that is not registered, the closed connection leaves
  \<open>connections_\<close> but stays in \<open>connections_by_id_\<close> and its object is never destroyed.
\<close>

lemma erased_node_read_leaks:
  assumes "connections r = [(k, ref)]" and "registered r ref c" and "cid_key (dcid c) = k" and "timed_out c"
    and "freed_assigned_id F (AssignedId c) = Inr j" and "Find_id j r = None"
  shows "\<exists>r'. Loop_round n Q F cb buffer r h = Inr ((QUIC_SEND_SLOW_INTERVAL_MSEC, buffer), r', h) \<and>
    Find_dcid (dcid c) r' = None \<and> Find_id (AssignedId c) r' = Some ref \<and> objects r' ref = Some c"
proof -
  let ?r = "r\<lparr>connections := [], connections_by_id := um_erase j (connections_by_id r)\<rparr>"
  have "um_erase k (connections r) = []" using assms(1) by (simp add: um_erase_def)
  then have l: "Loop_round n Q F cb buffer r h = Inr ((QUIC_SEND_SLOW_INTERVAL_MSEC, buffer), release [ref] ?r, h)"
    using assms(1,2,4,5) by (simp add: Loop_round_def deref_def registered_def)
  have "AssignedId c \<noteq> j" using assms(2,6) by (auto simp: registered_def Find_id_def)
  then have f: "um_find (AssignedId c) (connections_by_id ?r) = Some ref"
    using assms(2) by (simp add: registered_def um_find_erase)
  have "objects (release [ref] ?r) ref = Some c"
    using um_find_referenced(2) [OF f] assms(2) by (simp add: release_def registered_def)
  with l f show ?thesis by (auto simp: Find_dcid_def Find_id_def um_find_def)
qed

definition stale_memory :: freed_memory where
  "stale_memory = \<lparr>freed_headers = Inr, freed_assigned_id = (\<lambda>i. Inr 0)\<rparr>"

lemma erased_node_read_leaks_example:
  "\<exists>r'. Loop_round 3 scripted stale_memory (server_callbacks scripted '''') None (ex_registry True) script_host =
      Inr ((20, None), r', script_host) \<and> Find_dcid ex_dcid r' = None \<and> Find_id 1 r' = Some 0"
  using erased_node_read_leaks [of "ex_registry True" "replicate 16 7" 0 "(script_conn True idle)\<lparr>timed_out := True\<rparr>"
      stale_memory 0 3 scripted "server_callbacks scripted ''''" None script_host]
  by (auto simp: ex_registry_def registered_def script_conn_def Initialize_def cid_key_def um_find_def stale_memory_def
      Find_id_def ex_dcid_def QUIC_SEND_SLOW_INTERVAL_MSEC_def)

section \<open>Admission\<close>



text \<open>
  C31: One datagram from any IPv4 peer stops the server. If the packet is for an unknown id in
  a supported version and its token says \<open>IPv6\<close> with the peer's own port, an empty id and
  sixteen more bytes, an exception leaves the handler, which no frame of the io thread
  catches.
\<close>

definition crash_token :: "u16 \<Rightarrow> bytes" where
  "crash_token p = [TOKEN_ID, 0, 0, ucast p, ucast (drop_bit 8 p)] @ replicate 16 0"

theorem crafted_token_terminates_server:
  assumes "p_header_info P LOCAL_CONN_ID_LEN LOCAL_CONN_ID_LEN MAX_TOKEN_LEN data = (rc, version, scid, d, crash_token (port peer))"
    and "0 \<le> rc" and "Find_dcid d (sender v) = None" and "p_version_is_supported P version" and "is_v4 (address peer)"
  shows "server_OnDatagram n Q P F rd odcid data peer v = Inl (Uncaught ''bad_address_cast'')"
proof -
  have "read_token (crash_token (port peer)) peer odcid = Inl (Uncaught ''bad_address_cast'')"
    using assms(5) by (cases "address peer")
      (simp_all add: read_token_eq crash_token_def read16_head check_address_def LOCAL_CONN_ID_LEN_def)
  then show ?thesis
    using assms(1-4) by (simp add: server_OnDatagram_def crash_token_def)
qed

definition ex_attack :: packet_lib where
  "ex_attack = ex_packets\<lparr>p_header_info := (\<lambda>s d t data. (0, 1, ex_cid, ex_cid, crash_token 4433))\<rparr>"

theorem crafted_token_terminates_server_witness:
  "server_OnDatagram 3 scripted ex_attack kept_memory (\<lambda>_. 0) ex_cid [1] ex_ep ex_server =
     Inl (Uncaught ''bad_address_cast'')"
  by (rule crafted_token_terminates_server [where rc = 0 and version = 1 and scid = ex_cid and d = ex_cid])
     (simp_all add: ex_attack_def ex_ep_def server_eval ex_packets_def)

section \<open>Authentication\<close>

lemma server_steps_settings:
  "server_step Q P F v v' \<Longrightarrow> server_ok v \<Longrightarrow> settings v' = settings v"
proof (induction rule: server_step.induct)
  case (srv_datagram n rd odcid data peer v v')
  have deliver: "settings w' = settings w" if "server_deliver n Q F data peer ref w = Inr w'" for ref w w'
    using that by (auto simp: server_deliver_def on_object_def elim!: rbindE)
  from srv_datagram(1) show ?case
  proof (cases rule: server_OnDatagram_cases)
    case (created rc version scid d token odcid' res v1)
    from CreateConnection_spec [OF created(5) srv_datagram(3) created(2) srv_datagram(2)]
    have "settings v1 = settings v" by (simp add: created_def)
    with created(6) deliver show ?thesis by (auto split: option.splits)
  qed (auto intro: deliver)
qed (auto simp: Respond_def server_Close_def on_object_def elim!: rbindE split: if_splits option.splits)

lemma server_never_learns_settings:
  assumes "server_steps Q P F (new_server st junk local) v"
  shows "srv_Authorization (settings v) = ''''"
proof -
  have "server_ok v \<and> settings v = default_server_settings junk"
    using assms
  proof (induction rule: rtranclp_induct)
    case base
    show ?case using server_ok_new by (auto simp: new_server_def)
  next
    case (step w w')
    then show ?case using server_step_ok server_steps_settings by metis
  qed
  then show ?thesis by (simp add: default_server_settings_def)
qed

text \<open>
  C34: The configured token is never compared. In every state a server reaches, whatever
  \<open>Authorization\<close> it was created with, the first request of a connection is accepted if and
  only if its \<open>Authorization\<close> field is empty, as it is for every request without a header
  spelled exactly \<open>Authorization\<close>; a request carrying the configured token is turned away.
\<close>

theorem configured_token_ignored:
  assumes "server_steps Q P F (new_server st junk local) v" and "\<not> connected (cn s)"
    and "ev_Stream e = Some stream"
  shows "on_data (server_cb Q v) e s =
    (if Authorization stream = ''''
     then Inr (post e (post connect_event (s\<lparr>cn := (cn s)\<lparr>connected := True\<rparr>\<rparr>)))
     else rbind (Close Q invalid_token_reason (cn s)) (\<lambda>c. Inr (s\<lparr>cn := c\<rparr>))) \<and>
    (''Authorization'' \<notin> fst ` set hdrs \<longrightarrow>
       Authorization (add_headers hdrs (new_incoming_stream i)) = '''')"
proof -
  have h: "header_value name hdrs old = old" if "name \<notin> fst ` set hdrs" for name old
  proof -
    have "map_of (rev hdrs) name = None" using that by (simp add: map_of_eq_None_iff)
    then show ?thesis by (simp add: header_value_def)
  qed
  then have "''Authorization'' \<notin> fst ` set hdrs \<longrightarrow> Authorization (add_headers hdrs (new_incoming_stream i)) = ''''"
    by (simp add: add_headers_value new_incoming_stream_def)
  with assms(2,3) server_never_learns_settings [OF assms(1)] show ?thesis
    by (auto simp: server_callbacks_def server_on_data_def IsConnected_def MarkClientConnected_def)
qed

definition ex_event :: "string \<Rightarrow> event" where
  "ex_event a = new_event\<lparr>ev_Type := DataEvent, ev_ConnectionAssignedId := 1,
     ev_Stream := Some ((new_incoming_stream 0)\<lparr>Authorization := a\<rparr>)\<rparr>"

theorem configured_token_ignored_witness:
  "on_data (server_cb scripted ex_server) (ex_event '''') \<lparr>cn = script_conn True idle, hs = script_host\<rparr> =
     Inr (post (ex_event '''') (post connect_event
       \<lparr>cn = (script_conn True idle)\<lparr>connected := True\<rparr>, hs = script_host\<rparr>)) \<and>
   (\<exists>s. on_data (server_cb scripted ex_server) (ex_event ''Bearer secret'') \<lparr>cn = script_conn True idle, hs = script_host\<rparr> = Inr s \<and>
      queued s = [])"
proof -
  have st: "server_steps scripted ex_packets kept_memory (new_server ex_settings 0 script_peer) ex_server"
    by (simp add: ex_server_def)
  have ev: "ev_Stream (ex_event a) = Some ((new_incoming_stream 0)\<lparr>Authorization := a\<rparr>)" for a
    by (simp add: ex_event_def)
  have nc: "\<not> connected (cn \<lparr>cn = script_conn True idle, hs = script_host\<rparr>)"
    by (simp add: script_conn_def)
  show ?thesis
    using configured_token_ignored [OF st nc ev [of "''''"], of "[]" 0]
      configured_token_ignored [OF st nc ev [of "''Bearer secret''"], of "[]" 0]
    by (simp add: Close_def h3_send_goaway_def conn_close_def call_defs script_defs script_host_def new_mailbox_def)
qed

text \<open>
  C35: The Connect event of a server names no connection. Whatever connection it is posted
  for, it carries the id 0 and the default endpoint, and in every state a server reaches no
  connection has that id, so a response or a close for it finds nothing.
\<close>

theorem connect_event_names_nothing:
  assumes "server_steps Q P F (new_server st junk local) v"
  shows "ev_Type connect_event = ConnectEvent \<and> ev_PeerEndpoint connect_event = default_endpoint \<and>
    Find_id (ev_ConnectionAssignedId connect_event) (sender v) = None"
proof -
  have "server_ok v" using server_steps_ok [OF assms] server_ok_new by blast
  then have "Find_id 0 (sender v) = None"
    unfolding server_ok_def Find_id_def by (metis not_None_eq word_not_simps(1))
  then show ?thesis by (simp add: connect_event_def new_event_def Let_def)
qed

theorem connect_event_names_nothing_witness:
  "\<exists>v. Find_id 1 (sender v) = Some 0 \<and> Find_id (ev_ConnectionAssignedId connect_event) (sender (v :: script server)) = None"
proof -
  obtain v where v: "server_OnDatagram 3 scripted ex_packets kept_memory (\<lambda>_. 0) ex_cid [1] ex_ep ex_server = Inr v"
    "Find_id 1 (sender v) = Some 0" using ex_server_accepts by blast
  from connect_event_names_nothing [OF ex_server_steps [OF v(1)]] v(2) show ?thesis by blast
qed

section \<open>Runs of a server connection\<close>

lemma accepted_conn_inv:
  assumes "Accept Q peer d odcid \<lparr>cn = Initialize True i d, hs = h\<rparr> = (True, s)" and "sock_inv [] (net h)"
    and "\<forall>e \<in> set (events (mailbox h)). ev_ConnectionAssignedId e \<noteq> i"
  shows "conn_inv i (s, [])"
proof -
  have "hs s = h" "AssignedId (cn s) = i" "outgoing_streams_by_id (cn s) = []" "incoming_streams_by_id (cn s) = []"
    "timed_out (cn s) = False"
    using assms(1) by (auto simp: Accept_def Let_def split: option.splits)
  then show ?thesis
    using assms(2,3) timeouts_none [OF assms(3)] by (auto simp: conn_inv_def um_inv_def)
qed

text \<open>
  C3: A connection's timeout is reported exactly once. From the moment a server accepts a
  connection, whatever its operations, timers, flushes, the poller and the other
  connections do and in whatever order, the Timeout events posted for its id (delivered or
  still queued) are one if the connection counts as timed out and none otherwise.
\<close>

theorem timeout_reported_exactly_once:
  assumes "Accept Q peer d odcid \<lparr>cn = Initialize True i d, hs = h\<rparr> = (True, s)" and "sock_inv [] (net h)"
    and "\<forall>e \<in> set (events (mailbox h)). ev_ConnectionAssignedId e \<noteq> i"
    and "conn_steps Q F (server_callbacks Q auth) (s, []) (s', taken)"
  shows "timeouts i (taken @ queued s') = (if timed_out (cn s') then 1 else 0)"
proof -
  have "conn_inv i (s', taken)"
    using srv.conn_steps_inv [OF assms(4) accepted_conn_inv [OF assms(1-3)]] .
  then show ?thesis by (simp add: conn_inv_def)
qed

lemma ex_accept:
  "Accept scripted ex_ep ex_cid ex_cid \<lparr>cn = Initialize True 1 ex_cid, hs = script_host\<rparr> =
    (True, \<lparr>cn = (Initialize True 1 ex_cid)\<lparr>conn := Some idle, conns_made := 1\<rparr>, hs = script_host\<rparr>)"
  by (simp add: Accept_def Let_def Initialize_def)

lemma script_host_inv: "sock_inv [] (net script_host)" "events (mailbox script_host) = []"
  by (simp_all add: script_host_def sock_inv_new new_mailbox_def)

text \<open>The quiche timer of a connection that quiche declares dead: the run of the witness.\<close>

lemma ex_timeout_run:
  "\<exists>s'. conn_steps scripted kept_memory (server_callbacks scripted '''')
      (\<lparr>cn = (Initialize True 1 ex_cid)\<lparr>conn := Some idle, conns_made := 1\<rparr>, hs = script_host\<rparr>, []) (s', []) \<and>
     timed_out (cn s') \<and> length (queued s') = 1"
proof -
  let ?s = "\<lparr>cn = (Initialize True 1 ex_cid)\<lparr>conn := Some idle, conns_made := 1\<rparr>, hs = script_host\<rparr>"
  have "\<exists>s'. OnQuicheTimer 2 scripted kept_memory (server_callbacks scripted '''') False ?s = Inr s' \<and>
      timed_out (cn s') \<and> length (queued s') = 1"
    by (simp add: OnQuicheTimer_def datagram_eval server_eval script_host_def idle_def numeral_2_eq_2
        server_on_timeout_def post_def Post_def new_mailbox_def)
  then show ?thesis using conn_tick by (blast intro: r_into_rtranclp)
qed

theorem timeout_reported_exactly_once_witness:
  "\<exists>s'. timed_out (cn s') \<and> timeouts 1 (queued (s' :: script cst)) = 1"
proof -
  obtain s' where s': "conn_steps scripted kept_memory (server_callbacks scripted '''')
      (\<lparr>cn = (Initialize True 1 ex_cid)\<lparr>conn := Some idle, conns_made := 1\<rparr>, hs = script_host\<rparr>, []) (s', [])"
    "timed_out (cn s')" using ex_timeout_run by blast
  have "\<forall>e \<in> set (events (mailbox script_host)). ev_ConnectionAssignedId e \<noteq> 1" by (simp add: script_host_inv)
  from timeout_reported_exactly_once [OF ex_accept script_host_inv(1) this s'(1)] s'(2) show ?thesis by auto
qed

text \<open>
  C6: The queues of outgoing bodies stay well-formed. Along every run of an accepted
  connection there is at most one queue per stream, each under its own stream id, its
  \<open>SendOffset\<close> lies within its buffer, and the \<open>int\<close> that \<open>FlushTransfers\<close> computes for the
  remaining bytes is their true number.
\<close>

theorem outgoing_queues_well_formed:
  assumes "Accept Q peer d odcid \<lparr>cn = Initialize True i d, hs = h\<rparr> = (True, s)" and "sock_inv [] (net h)"
    and "\<forall>e \<in> set (events (mailbox h)). ev_ConnectionAssignedId e \<noteq> i"
    and "conn_steps Q F (server_callbacks Q auth) (s, []) (s', taken)"
    and "(k, st) \<in> set (outgoing_streams_by_id (cn s'))"
  shows "um_find k (outgoing_streams_by_id (cn s')) = Some st \<and> out_Id st = k \<and>
    0 \<le> SendOffset st \<and> SendOffset st \<le> int (length (out_Buffer st)) \<and>
    to_i32 (int (length (out_Buffer st)) - SendOffset st) = int (length (out_Buffer st)) - SendOffset st"
proof -
  have "conn_inv i (s', taken)"
    using srv.conn_steps_inv [OF assms(4) accepted_conn_inv [OF assms(1-3)]] .
  then have ok: "outgoing_ok (outgoing_streams_by_id (cn s'))" by (simp add: conn_inv_def)
  with assms(5) have st: "ostream_ok k st" by (auto simp: outgoing_ok_def)
  have "um_find k (outgoing_streams_by_id (cn s')) = Some st"
    using ok assms(5) by (simp add: outgoing_ok_def um_inv_def um_find_def)
  with st show ?thesis by (simp add: ostream_ok_def to_i32_id)
qed

text \<open>A response of five bytes, of which quiche takes two and then one: the run of the witness.\<close>

definition stalling :: "script quiche" where
  "stalling = scripted\<lparr>q_accept := (\<lambda>d1 d2 l p. Some (idle\<lparr>sc_send_body := [2, 1]\<rparr>))\<rparr>"

definition ex_stall :: "script cst" where
  "ex_stall = snd (Accept stalling ex_ep ex_cid ex_cid \<lparr>cn = Initialize True 1 ex_cid, hs = script_host\<rparr>)"

lemma ex_stall_run:
  "\<exists>s' st. conn_steps stalling kept_memory (server_callbacks stalling '''') (ex_stall, []) (s', []) \<and>
     outgoing_streams_by_id (cn s') = [(4, st)] \<and> out_Buffer st = [3, 4, 5] \<and> SendOffset st = 1"
proof -
  have "\<exists>s1. OnDatagram 3 stalling kept_memory (server_callbacks stalling '''') [1] ex_ep ex_stall = Inr s1 \<and>
      (\<exists>s2 st. SendResponse 3 stalling kept_memory (server_callbacks stalling '''') 4 [] (Some [1, 2, 3, 4, 5]) 5 s1 = Inr (True, s2) \<and>
        outgoing_streams_by_id (cn s2) = [(4, st)] \<and> out_Buffer st = [3, 4, 5] \<and> SendOffset st = 1)"
    by (simp add: ex_stall_def stalling_def Accept_def datagram_eval server_eval script_host_def idle_def numeral_3_eq_3
          SendResponse_def SendBody_def h3_send_response_def h3_send_body_def
          queue_body_def GetOutgoingStream_def new_outgoing_stream_def flush_stream_def to_i32_id)
  then obtain s1 s2 st where
    1: "OnDatagram 3 stalling kept_memory (server_callbacks stalling '''') [1] ex_ep ex_stall = Inr s1" and
    2: "SendResponse 3 stalling kept_memory (server_callbacks stalling '''') 4 [] (Some [1, 2, 3, 4, 5]) 5 s1 = Inr (True, s2)" and
    st: "outgoing_streams_by_id (cn s2) = [(4, st)]" "out_Buffer st = [3, 4, 5]" "SendOffset st = 1" by (elim exE conjE)
  have "conn_steps stalling kept_memory (server_callbacks stalling '''') (ex_stall, []) (s1, [])"
    by (rule r_into_rtranclp, rule conn_datagram, rule 1)
  then have "conn_steps stalling kept_memory (server_callbacks stalling '''') (ex_stall, []) (s2, [])"
    by (rule rtranclp.rtrancl_into_rtrancl) (rule conn_response [OF 2], simp)
  with st show ?thesis by (intro exI conjI)
qed

theorem outgoing_queues_well_formed_witness:
  "\<exists>(s' :: script cst) st. um_find 4 (outgoing_streams_by_id (cn s')) = Some st \<and> SendOffset st = 1 \<and>
     to_i32 (int (length (out_Buffer st)) - SendOffset st) = 2"
proof -
  obtain s' st where s': "conn_steps stalling kept_memory (server_callbacks stalling '''') (ex_stall, []) (s', [])"
    "outgoing_streams_by_id (cn s') = [(4, st)]" "out_Buffer st = [3, 4, 5]" "SendOffset st = 1"
    using ex_stall_run by (elim exE conjE)
  have a: "Accept stalling ex_ep ex_cid ex_cid \<lparr>cn = Initialize True 1 ex_cid, hs = script_host\<rparr> = (True, ex_stall)"
    by (simp add: ex_stall_def Accept_def stalling_def Let_def)
  have h: "\<forall>e \<in> set (events (mailbox script_host)). ev_ConnectionAssignedId e \<noteq> 1" by (simp add: script_host_inv)
  have m: "(4, st) \<in> set (outgoing_streams_by_id (cn s'))" by (simp add: s'(2))
  from outgoing_queues_well_formed [OF a script_host_inv(1) h s'(1) m] s'(3,4) show ?thesis
    by (intro exI [of _ s'] exI [of _ st]) simp
qed


text \<open>A connection with one packet to send: it is flushed and the send completes.\<close>

definition talking :: "script quiche" where
  "talking = scripted\<lparr>q_accept := (\<lambda>d1 d2 l p. Some (idle\<lparr>sc_packets := [[5, 6]]\<rparr>))\<rparr>"

definition ex_talk :: "script cst" where
  "ex_talk = snd (Accept talking ex_ep ex_cid ex_cid \<lparr>cn = Initialize True 1 ex_cid, hs = script_host\<rparr>)"

lemma ex_talk_run:
  "\<exists>s'. conn_steps talking kept_memory (server_callbacks talking '''') (ex_talk, []) (s', []) \<and>
     map (fst \<circ> snd) (wire (net (hs s'))) = [[5, 6]]"
proof -
  let ?w = "\<lambda>s. s\<lparr>hs := (hs s)\<lparr>net := Send_complete 0 False (net (hs s))\<rparr>\<rparr>"
  have "\<exists>s1. FlushEgress_local 2 talking kept_memory (server_callbacks talking '''') ex_talk = Inr (True, s1) \<and>
      map (fst \<circ> snd) (wire (net (hs (?w s1)))) = [[5, 6]]"
    by (simp add: ex_talk_def talking_def Accept_def datagram_eval server_eval script_host_def idle_def numeral_2_eq_2
        script_peer_def Send_def fill_buffer_def buffer_bytes_def Send_complete_def to_sockaddr_def
        sizeof_sockaddr_in_def)
  then obtain s1 where 1: "FlushEgress_local 2 talking kept_memory (server_callbacks talking '''') ex_talk = Inr (True, s1)"
    and w: "map (fst \<circ> snd) (wire (net (hs (?w s1)))) = [[5, 6]]" by (elim exE conjE)
  have "conn_steps talking kept_memory (server_callbacks talking '''') (ex_talk, []) (s1, [])"
    by (rule r_into_rtranclp, rule conn_flush, rule 1)
  then have "conn_steps talking kept_memory (server_callbacks talking '''') (ex_talk, []) (?w s1, [])"
    by (rule rtranclp.rtrancl_into_rtrancl) (rule conn_complete)
  with w show ?thesis by (intro exI conjI)
qed


section \<open>Bodies of responses\<close>

text \<open>
  C11: \<open>SendBody\<close> accounts for the whole body. On a stream with nothing queued or cached, the
  bytes quiche accepted during the call followed by those queued afterwards are the body,
  whether the call reports success or not. On success the stream's FIN was accepted or the
  stream is queued, so that a later flush sends it; on failure the FIN was refused and the
  stream is not queued, so nothing will send it.
\<close>

theorem send_body_accounts_for_all:
  assumes "SendBody n Q F (server_callbacks Q auth) sid data bytes s = Inr (ok, s')"
    and "outgoing_ok (outgoing_streams_by_id (cn s))" and "0 < bytes" and "bytes < 2 ^ 31"
    and "sid \<notin> out_keys s" and "sid \<notin> cached_ids (response_cache (cn s))"
  shows "\<exists>cs. calls (cn s') = calls (cn s) @ cs \<and>
     accepted sid cs @ pending sid (outgoing_streams_by_id (cn s')) = take (nat bytes) data \<and>
     (if ok then fin_taken sid cs \<or> sid \<in> out_keys s'
      else \<not> fin_taken sid cs \<and> sid \<notin> out_keys s' \<and> (\<exists>r < 0. CallBody sid [] True r \<in> set cs))"
  using srv.SendBody_accounted [OF assms] by (simp add: body_accounted_def)

definition ex_sender :: "int list \<Rightarrow> script cst" where
  "ex_sender rs = \<lparr>cn = script_conn True (idle\<lparr>sc_send_body := rs\<rparr>), hs = script_host\<rparr>"

lemma ex_send_refused:
  "\<exists>s'. SendBody 2 scripted kept_memory (server_callbacks scripted '''') 4 [1, 2, 3] 3 (ex_sender [3, - 13]) = Inr (False, s') \<and>
     outgoing_streams_by_id (cn s') = []"
  by (simp add: SendBody_def ex_sender_def h3_send_body_def call_defs script_defs Let_def)

theorem send_body_accounts_for_all_witness:
  "\<exists>s'. SendBody 2 scripted kept_memory (server_callbacks scripted '''') 4 [1, 2, 3] 3 (ex_sender [3, - 13]) = Inr (False, s') \<and>
     accepted 4 (calls (cn s')) = [1, 2, 3] \<and> \<not> fin_taken 4 (calls (cn s'))"
proof -
  obtain s' where s': "SendBody 2 scripted kept_memory (server_callbacks scripted '''') 4 [1, 2, 3] 3 (ex_sender [3, - 13]) = Inr (False, s')"
    "outgoing_streams_by_id (cn s') = []" using ex_send_refused by blast
  have o: "outgoing_streams_by_id (cn (ex_sender [3, - 13])) = []" "response_cache (cn (ex_sender [3, - 13])) = []"
    "calls (cn (ex_sender [3, - 13])) = []"
    by (simp_all add: ex_sender_def script_defs)
  from send_body_accounts_for_all [OF s'(1)] s' show ?thesis by (auto simp: o)
qed

end
