(* ===== verification/QS_Client.thy ===== *)
theory QS_Client
  imports QS_Server
begin

text \<open>
  \<open>QuicSendClient\<close>: its callbacks (with the interpretation of the contract \<open>conn_owner\<close>), the
  constructor, the handler of the resolver, the datagram callback and the API calls. The
  DER certificate that \<open>LoadPEMCertAsDER\<close> reads from the file is a parameter.
\<close>

record client_settings =
  cs_Authorization :: string
  cs_Host :: string
  cs_Port :: u16
  cs_CertPath :: string

section \<open>Callbacks\<close>

text \<open>\<open>QuicSendClient::Close\<close>, on the part of the state that callbacks reach.\<close>

definition client_Close_host :: "host \<Rightarrow> host" where
  "client_Close_host h = (if closed h then h else h\<lparr>closed := True\<rparr>)"

definition client_on_timeout :: "u64 \<Rightarrow> 'q cst \<Rightarrow> 'q cst run" where
  "client_on_timeout connection_id s =
     (let s = s\<lparr>hs := client_Close_host (hs s)\<rparr>
      in Inr (post (new_event\<lparr>ev_Type := TimeoutEvent, ev_ConnectionAssignedId := connection_id\<rparr>) s))"

definition client_on_connect :: "'q quiche \<Rightarrow> bytes \<Rightarrow> u64 \<Rightarrow> endpoint \<Rightarrow> 'q cst \<Rightarrow> 'q cst run" where
  "client_on_connect Q cert_der connection_id peer s =
     rbind (ComparePeerCertificate Q cert_der (cn s)) (\<lambda>(ok, c).
       let s = s\<lparr>cn := c\<rparr>
       in if ok then
            Inr (post (new_event\<lparr>ev_Type := ConnectEvent, ev_ConnectionAssignedId := connection_id,
                                 ev_PeerEndpoint := peer\<rparr>) s)
          else Inr s)"

definition client_on_data :: "event \<Rightarrow> 'q cst \<Rightarrow> 'q cst run" where
  "client_on_data event s = (if IsConnected (cn s) then Inr (post event s) else Inr s)"

definition client_callbacks :: "'q quiche \<Rightarrow> bytes \<Rightarrow> 'q callbacks" where
  "client_callbacks Q cert_der =
     \<lparr>on_connect = client_on_connect Q cert_der, on_timeout = client_on_timeout, on_data = client_on_data\<rparr>"

text \<open>\<open>ComparePeerCertificate\<close> marks the connection exactly if it answers true.\<close>

lemma ComparePeerCertificate_connected:
  assumes "ComparePeerCertificate Q cert c = Inr (ok, c')"
  shows "connected c' \<longleftrightarrow> connected c \<or> ok"
proof -
  from assms obtain p where "(if to_i32 (int (length p)) \<noteq> to_i32 (int (length cert)) \<or>
          memcmp p cert (length p) \<noteq> 0
       then rbind (conn_close Q cert_reason c) (\<lambda>c. Inr (False, c))
       else Inr (True, c\<lparr>connected := True\<rparr>)) = Inr (ok, c')"
    unfolding ComparePeerCertificate_def by (rule rbindE)
  then show ?thesis
    by (auto split: if_splits elim!: rbindE dest: conn_close_only_calls only_calls_frame(8))
qed

interpretation cli: conn_owner "client_callbacks Q cert_der" for Q cert_der
proof unfold_locales
  fix i and s s' :: "'a cst"
  assume "on_timeout (client_callbacks Q cert_der) i s = Inr s'"
  then show "cn s' = cn s \<and> net (hs s') = net (hs s) \<and> queued s' = queued s @ [timeout_event i]"
    by (auto simp: client_callbacks_def client_on_timeout_def client_Close_host_def Let_def timeout_event_def)
next
  fix i p and s s' :: "'a cst"
  assume "on_connect (client_callbacks Q cert_der) i p s = Inr s'"
  then obtain ok c where cmp: "ComparePeerCertificate Q cert_der (cn s) = Inr (ok, c)"
    and s': "s' = (if ok then post (new_event\<lparr>ev_Type := ConnectEvent, ev_ConnectionAssignedId := i, ev_PeerEndpoint := p\<rparr>)
                    (s\<lparr>cn := c\<rparr>) else s\<lparr>cn := c\<rparr>)"
    by (auto simp: client_callbacks_def client_on_connect_def Let_def elim!: rbind_pairE split: if_splits)
  show "quiet (cn s) (cn s') \<and> net (hs s') = net (hs s) \<and>
      (\<exists>es. queued s' = queued s @ es \<and> (\<forall>j. timeouts j es = 0) \<and> (connected (cn s') \<or> es = []))"
    using ComparePeerCertificate_quiet [OF cmp] ComparePeerCertificate_connected [OF cmp]
    by (cases ok) (auto simp: s' intro!: exI [of _ "[]"])
next
  fix e and s s' :: "'a cst"
  assume "on_data (client_callbacks Q cert_der) e s = Inr s'" and "ev_Type e = DataEvent"
  then show "quiet (cn s) (cn s') \<and> net (hs s') = net (hs s) \<and>
      (\<exists>es. queued s' = queued s @ es \<and> (\<forall>j. timeouts j es = 0) \<and> (connected (cn s') \<or> es = []))"
    by (auto simp: client_callbacks_def client_on_data_def IsConnected_def split: if_splits)
next
  fix e and s :: "'a cst"
  assume "connected (cn s)"
  then show "on_data (client_callbacks Q cert_der) e s = Inr (post e s)"
    by (simp add: client_callbacks_def client_on_data_def IsConnected_def)
qed

section \<open>The client\<close>

record 'q client =
  cl_settings :: client_settings
  cert_der :: bytes
  resolved_endpoint :: endpoint
  cl_sender :: "'q registry"
  connection :: nat
  cl_host :: host
  receiving :: bool        \<comment> \<open>\<open>StartReceive\<close> was called\<close>

text \<open>\<open>d\<close> stands for the \<open>ConnectionId()\<close> of \<open>qcs.dcid\<close>; nothing depends on its contents.\<close>

definition new_client :: "client_settings \<Rightarrow> bytes \<Rightarrow> conn_id \<Rightarrow> endpoint \<Rightarrow> 'q client" where
  "new_client s cert d local =
     (case make_shared (Initialize False 0 d) new_registry of (ref, r) \<Rightarrow>
        \<lparr>cl_settings = s, cert_der = cert, resolved_endpoint = default_endpoint, cl_sender = r,
         connection = ref,
         cl_host = \<lparr>net = new_qsocket, local_endpoint = local, mailbox = new_mailbox, closed = False\<rparr>,
         receiving = False\<rparr>)"

definition client_Close :: "'q client \<Rightarrow> 'q client" where
  "client_Close l = l\<lparr>cl_host := client_Close_host (cl_host l)\<rparr>"

definition client_IsRunning :: "'q client \<Rightarrow> bool" where
  "client_IsRunning l \<longleftrightarrow> \<not> closed (cl_host l)"

abbreviation client_cb :: "'q quiche \<Rightarrow> 'q client \<Rightarrow> 'q callbacks" where
  "client_cb Q l \<equiv> client_callbacks Q (cert_der l)"

text \<open>A call on the client's connection.\<close>

definition on_connection :: "('q cst \<Rightarrow> ('a \<times> 'q cst) run) \<Rightarrow> 'q client \<Rightarrow> ('a \<times> 'q client) run" where
  "on_connection f l =
     rbind (deref (connection l) (cl_sender l)) (\<lambda>c.
     rbind (f \<lparr>cn = c, hs = cl_host l\<rparr>) (\<lambda>(x, s).
       Inr (x, l\<lparr>cl_sender := set_object (connection l) (cn s) (cl_sender l), cl_host := hs s\<rparr>)))"

text \<open>The handler of \<open>async_resolve\<close>; \<open>None\<close>: the host was not resolved.\<close>

definition OnResolve ::
    "nat \<Rightarrow> 'q quiche \<Rightarrow> freed_memory \<Rightarrow> conn_id \<Rightarrow> endpoint option \<Rightarrow> 'q client \<Rightarrow> 'q client run" where
  "OnResolve n Q F scid results l =
     (case results of
        None \<Rightarrow> Inr (client_Close l)
      | Some ep \<Rightarrow>
          let l = l\<lparr>resolved_endpoint := ep\<rparr>
          in rbind (Add (connection l) (cl_sender l)) (\<lambda>r.
             let l = l\<lparr>cl_sender := r\<rparr>
             in rbind (on_connection (\<lambda>s. Inr (Connect Q scid (resolved_endpoint l) s)) l) (\<lambda>(ok, l).
                if \<not> ok then Inr (client_Close l)
                else let l = l\<lparr>receiving := True\<rparr>
                     in rbind (on_connection (FlushEgress_local n Q F (client_cb Q l)) l) (\<lambda>(_, l). Inr l))))"

definition client_OnDatagram ::
    "nat \<Rightarrow> 'q quiche \<Rightarrow> freed_memory \<Rightarrow> bytes \<Rightarrow> endpoint \<Rightarrow> 'q client \<Rightarrow> 'q client run" where
  "client_OnDatagram n Q F data peer l =
     (if peer \<noteq> resolved_endpoint l then Inr l
      else rbind (on_connection (\<lambda>s. rbind (OnDatagram n Q F (client_cb Q l) data peer s) (\<lambda>s. Inr ((), s))) l)
             (\<lambda>(_, l). Inr l))"

definition QUICSEND_CLIENT_AGENT :: string where "QUICSEND_CLIENT_AGENT = ''quicsend-client''"

definition request_headers :: "client_settings \<Rightarrow> string \<Rightarrow> string \<Rightarrow> body_data \<Rightarrow> header list" where
  "request_headers cs path header_info body =
     (if Empty body then
        [('':method'', ''GET''),
         ('':scheme'', ''https''),
         ('':authority'', cs_Host cs),
         ('':path'', path),
         (''user-agent'', QUICSEND_CLIENT_AGENT),
         (''Authorization'', cs_Authorization cs),
         (QUICSEND_HEADER_INFO, header_info)]
      else
        [('':method'', ''POST''),
         ('':scheme'', ''https''),
         ('':authority'', cs_Host cs),
         ('':path'', path),
         (''user-agent'', QUICSEND_CLIENT_AGENT),
         (''Authorization'', ''Bearer '' @ cs_Authorization cs),
         (QUICSEND_HEADER_INFO, header_info),
         (''content-type'', the (bd_ContentType body)),
         (''content-length'', to_string (bd_Length body))])"

text \<open>\<open>env\<close>: what happens to the connection in the pauses of \<open>SendRequest\<close>.\<close>

definition Request ::
    "('q cst \<Rightarrow> 'q cst) list \<Rightarrow> nat \<Rightarrow> 'q quiche \<Rightarrow> freed_memory \<Rightarrow> string \<Rightarrow> string \<Rightarrow> body_data \<Rightarrow> 'q client \<Rightarrow>
     (int \<times> 'q client) run" where
  "Request env n Q F path header_info body l =
     (if closed (cl_host l) then Inr (- 1, l)
      else
        let headers = request_headers (cl_settings l) path header_info body;
            data = (if Empty body then [] else the (bd_Data body));
            bytes = (if Empty body then 0 else bd_Length body)
        in on_connection (SendRequest env n Q F (client_cb Q l) headers data bytes) l)"

text \<open>The destructor, up to joining the threads.\<close>

definition client_destroy :: "'q client \<Rightarrow> 'q client" where
  "client_destroy l =
     client_Close (l\<lparr>cl_host := (cl_host l)\<lparr>mailbox := Shutdown (mailbox (cl_host l))\<rparr>\<rparr>)"

end
