(* ===== verification/QS_PyApi.thy ===== *)
theory QS_PyApi
  imports QS_Client QS_Text
begin

text \<open>
  The C interface for Python (\<open>quicsend_python.cpp\<close>): creation with its checks, requests and
  responses with the conversion of bodies, and polling with the routing of events to the
  callbacks. A C string is \<open>None\<close> when the pointer is null; a Python object with a buffer is
  its bytes (\<open>None\<close>: null, or no buffer). What the callbacks get is recorded as a list of
  \<open>py_call\<close>s, together with the reference count of \<open>Py_None\<close>.
\<close>

section \<open>Strings and bodies\<close>

definition c_str :: "string option \<Rightarrow> string" where
  "c_str p = (case p of Some s \<Rightarrow> s | None \<Rightarrow> '''')"

record py_body =
  pb_ContentType :: "string option"
  pb_Data :: "bytes option"

definition to_body_data :: "py_body \<Rightarrow> body_data" where
  "to_body_data body =
     (case pb_Data body of
        Some view \<Rightarrow> \<lparr>bd_ContentType = Some (c_str (pb_ContentType body)), bd_Data = Some view,
                      bd_Length = to_i32 (int (length view))\<rparr>
      | None \<Rightarrow> \<lparr>bd_ContentType = None, bd_Data = None, bd_Length = 0\<rparr>)"

section \<open>Routing events\<close>

datatype py_call =
    PyConnect u64 string
  | PyTimeout u64
  | PyRequest u64 int string string string bytes int
      \<comment> \<open>connection id, request id, path, header info, content type, body, body length\<close>
  | PyResponse u64 int int string string bytes int
      \<comment> \<open>connection id, request id, status, header info, content type, body, body length\<close>

record py_state =
  py_calls :: "py_call list"
  none_refs :: int

text \<open>
  \<open>create_python_view_object\<close>: \<open>Py_None\<close>, with its count unchanged, for an empty buffer, and
  a new object otherwise. The count of a new object goes to zero at the \<open>Py_DECREF\<close>.
\<close>

definition create_python_view_object :: "bytes \<Rightarrow> bytes option" where
  "create_python_view_object data = (if data = [] then None else Some data)"

definition Py_DECREF :: "bytes option \<Rightarrow> py_state \<Rightarrow> py_state" where
  "Py_DECREF obj st = (case obj of None \<Rightarrow> st\<lparr>none_refs := none_refs st - 1\<rparr> | Some _ \<Rightarrow> st)"

definition py_add :: "py_call \<Rightarrow> py_state \<Rightarrow> py_state" where
  "py_add x st = st\<lparr>py_calls := py_calls st @ [x]\<rparr>"

text \<open>
  \<open>has_request\<close> and \<open>has_response\<close>: which of the two callback pointers is not null;
  \<open>show\<close> renders an address.
\<close>

definition route_event ::
    "(address \<Rightarrow> string) \<Rightarrow> bool \<Rightarrow> bool \<Rightarrow> event \<Rightarrow> py_state \<Rightarrow> py_state run" where
  "route_event show_addr has_request has_response event st =
     (case ev_Type event of
        ConnectEvent \<Rightarrow>
          Inr (py_add (PyConnect (ev_ConnectionAssignedId event) (EndpointToString show_addr (ev_PeerEndpoint event))) st)
      | TimeoutEvent \<Rightarrow> Inr (py_add (PyTimeout (ev_ConnectionAssignedId event)) st)
      | DataEvent \<Rightarrow>
          if \<not> has_request \<and> \<not> has_response then Inr st
          else (case ev_Stream event of
            None \<Rightarrow> Inl NullDeref
          | Some stream \<Rightarrow>
              let py_obj = create_python_view_object (in_Buffer stream);
                  len = to_i32 (int (length (in_Buffer stream)));
                  x = (if has_request then
                         PyRequest (ev_ConnectionAssignedId event) (sint (in_Id stream)) (Path stream)
                           (HeaderInfo stream) (ContentType stream) (in_Buffer stream) len
                       else
                         PyResponse (ev_ConnectionAssignedId event) (sint (in_Id stream)) (atoi (Status stream))
                           (HeaderInfo stream) (ContentType stream) (in_Buffer stream) len)
              in Inr (Py_DECREF py_obj (py_add x st)))
      | Invalid \<Rightarrow> Inr st)"

fun route_events ::
    "(address \<Rightarrow> string) \<Rightarrow> bool \<Rightarrow> bool \<Rightarrow> event list \<Rightarrow> py_state \<Rightarrow> py_state run" where
  "route_events show_addr rq rs [] st = Inr st"
| "route_events show_addr rq rs (e # es) st = rbind (route_event show_addr rq rs e st) (route_events show_addr rq rs es)"

section \<open>Client\<close>

record py_client_settings =
  pcs_AuthToken :: "string option"
  pcs_Host :: "string option"
  pcs_CertPath :: "string option"
  pcs_Port :: u16

text \<open>The settings handed to the constructor; \<open>None\<close>: the function returns null.\<close>

definition quicsend_client_create :: "py_client_settings \<Rightarrow> client_settings option" where
  "quicsend_client_create s =
     (let cs = \<lparr>cs_Authorization = ''Bearer '' @ c_str (pcs_AuthToken s),
                cs_Host = c_str (pcs_Host s), cs_Port = pcs_Port s, cs_CertPath = c_str (pcs_CertPath s)\<rparr>
      in if cs_Host cs = '''' \<or> cs_Port cs = 0 \<or> cs_CertPath cs = '''' then None else Some cs)"

definition quicsend_client_request ::
    "('q cst \<Rightarrow> 'q cst) list \<Rightarrow> nat \<Rightarrow> 'q quiche \<Rightarrow> freed_memory \<Rightarrow> 'q client option \<Rightarrow> string option \<Rightarrow> string option \<Rightarrow>
     py_body \<Rightarrow> (int \<times> 'q client option) run" where
  "quicsend_client_request env n Q F client path header_info body =
     (case client of
        None \<Rightarrow> Inr (- 1, None)
      | Some l \<Rightarrow>
          rbind (Request env n Q F (c_str path) (c_str header_info) (to_body_data body) l) (\<lambda>(r, l). Inr (r, Some l)))"

text \<open>
  The result is the returned value, the client and the Python state; \<open>None\<close>: the call blocks
  (nothing queued and a negative timeout).
\<close>

definition poll_mailbox ::
    "(address \<Rightarrow> string) \<Rightarrow> bool \<Rightarrow> bool \<Rightarrow> int \<Rightarrow> event mailbox \<Rightarrow> py_state \<Rightarrow> (event mailbox \<times> py_state) run option" where
  "poll_mailbox show_addr rq rs timeout_msec mb st =
     (if timeout_msec < 0 \<and> \<not> mb_ready mb then None
      else Some (case Poll_swap mb of (evs, mb) \<Rightarrow>
        rbind (route_events show_addr rq rs evs st) (\<lambda>st. Inr (mb, st))))"

definition quicsend_client_poll ::
    "(address \<Rightarrow> string) \<Rightarrow> int \<Rightarrow> bool \<Rightarrow> 'q client option \<Rightarrow> py_state \<Rightarrow> (int \<times> 'q client option \<times> py_state) run option" where
  "quicsend_client_poll show_addr timeout_msec has_response client st =
     (case client of
        None \<Rightarrow> Some (Inr (0, None, st))
      | Some l \<Rightarrow>
          if \<not> client_IsRunning l then Some (Inr (0, Some l, st))
          else map_option (\<lambda>r. rbind r (\<lambda>(mb, st).
                 Inr (1, Some (l\<lparr>cl_host := (cl_host l)\<lparr>mailbox := mb\<rparr>\<rparr>), st)))
               (poll_mailbox show_addr False has_response timeout_msec (mailbox (cl_host l)) st))"

section \<open>Server\<close>

record py_server_settings =
  pss_AuthToken :: "string option"
  pss_CertPath :: "string option"
  pss_KeyPath :: "string option"
  pss_Port :: u16

definition quicsend_server_create :: "py_server_settings \<Rightarrow> server_settings option" where
  "quicsend_server_create s =
     (let ss = \<lparr>srv_Authorization = ''Bearer '' @ c_str (pss_AuthToken s), srv_Port = pss_Port s,
                srv_KeyPath = c_str (pss_KeyPath s), srv_CertPath = c_str (pss_CertPath s)\<rparr>
      in if srv_Port ss = 0 \<or> srv_KeyPath ss = '''' \<or> srv_CertPath ss = '''' then None else Some ss)"

definition quicsend_server_poll ::
    "(address \<Rightarrow> string) \<Rightarrow> int \<Rightarrow> bool \<Rightarrow> 'q server option \<Rightarrow> py_state \<Rightarrow> (int \<times> 'q server option \<times> py_state) run option" where
  "quicsend_server_poll show_addr timeout_msec has_request srv st =
     (case srv of
        None \<Rightarrow> Some (Inr (0, None, st))
      | Some v \<Rightarrow>
          if closed (host v) then Some (Inr (0, Some v, st))
          else map_option (\<lambda>r. rbind r (\<lambda>(mb, st).
                 Inr (1, Some (v\<lparr>host := (host v)\<lparr>mailbox := mb\<rparr>\<rparr>), st)))
               (poll_mailbox show_addr has_request False timeout_msec (mailbox (host v)) st))"

definition quicsend_server_respond ::
    "nat \<Rightarrow> 'q quiche \<Rightarrow> freed_memory \<Rightarrow> 'q server option \<Rightarrow> u64 \<Rightarrow> int \<Rightarrow> int \<Rightarrow> string option \<Rightarrow> py_body \<Rightarrow>
     'q server option run" where
  "quicsend_server_respond n Q F srv connection_id request_id status header_info body =
     (case srv of
        None \<Rightarrow> Inr None
      | Some v \<Rightarrow>
          rbind (Respond n Q F connection_id request_id status (c_str header_info) (to_body_data body) v) (\<lambda>v. Inr (Some v)))"

definition quicsend_server_close :: "'q quiche \<Rightarrow> 'q server option \<Rightarrow> u64 \<Rightarrow> 'q server option run" where
  "quicsend_server_close Q srv connection_id =
     (case srv of None \<Rightarrow> Inr None | Some v \<Rightarrow> rbind (server_Close Q connection_id v) (\<lambda>v. Inr (Some v)))"

end
