(* ===== verification/QS_ClientProps.thy ===== *)
theory QS_ClientProps
  imports QS_Client QS_Lifecycle
begin

text \<open>
  Properties of the client: reassembly of responses, authentication before delivery, and the
  two calls that reach a connection without a \<open>quiche_conn\<close>.
\<close>

section \<open>Reassembly\<close>

text \<open>
  C4: Responses are reassembled exactly. On an authenticated connection, whatever sequence of
  events quiche reports, \<open>ProcessH3Events\<close> does what the specification \<open>rx_run\<close> does on
  that sequence: one Data event per finished stream, in the order they finish, each with the
  connection's id. For every stream that is not reset, the bytes handed over for it followed
  by those still held are the bytes held before followed by those \<open>recv_body\<close> returned.
\<close>

theorem responses_reassembled:
  assumes "ProcessH3Events n Q (client_callbacks Q cert) s = Inr s'" and "q_err Q QUICHE_ERR_DONE < 0"
    and "connected (cn s)" and "inbox_ids (inbox s)"
  shows "\<exists>outs. rx_run (rx_input (polled n Q (client_callbacks Q cert) s)) (inbox s) = (inbox s', outs) \<and>
     queued s' = queued s @ map (data_event (cn s)) outs \<and>
     (\<forall>k. (k, RxReset) \<notin> set (rx_input (polled n Q (client_callbacks Q cert) s)) \<longrightarrow>
        out_body k outs @ inbox_body k (inbox s') = inbox_body k (inbox s) @ received k (new_calls s s'))"
proof -
  from cli.ProcessH3Events_refines [OF assms(1-3)] obtain outs cs where
      r: "rx_run (rx_input (polled n Q (client_callbacks Q cert) s)) (inbox s) = (inbox s', outs)"
    and q: "queued s' = queued s @ map (data_event (cn s)) outs"
    and c: "calls (cn s') = calls (cn s) @ cs"
    and b: "\<forall>k. received k cs = rx_body k (rx_input (polled n Q (client_callbacks Q cert) s))"
    unfolding refines_def by blast
  with rx_run_body [OF r assms(4)] show ?thesis by (auto simp: new_calls_eq [OF c])
qed

text \<open>A response on stream 4 in two pieces; the states of the run are explicit.\<close>

definition ex_rx :: "(int \<times> h3_event) list \<Rightarrow> (int \<times> bytes) list \<Rightarrow> script" where
  "ex_rx evs data = idle\<lparr>sc_poll := evs, sc_recv_body := data\<rparr>"

definition ex_rx_cst :: "script \<Rightarrow> (u64, incoming_stream) umap \<Rightarrow> qcall list \<Rightarrow> host \<Rightarrow> script cst" where
  "ex_rx_cst q m cs h = \<lparr>cn = (script_conn False q)
     \<lparr>connected := True, incoming_streams_by_id := m, calls := cs\<rparr>, hs = h\<rparr>"

definition ex_rx_state :: "script cst" where
  "ex_rx_state = ex_rx_cst (ex_rx [(4, EvData), (4, EvFinished)] [(2, [7, 8]), (1, [9])]) [] [] script_host"

lemma ex_rx_poll:
  "call_h3 (q_h3_poll scripted) (cn (ex_rx_cst (ex_rx evs data) m cs h)) =
     Inr (fst (next_answer (- 1, EvOther) evs), cn (ex_rx_cst (ex_rx (snd (next_answer (- 1, EvOther) evs)) data) m cs h))"
  by (cases evs) (auto simp: ex_rx_cst_def ex_rx_def script_defs call_defs)

lemma ex_rx_recv:
  "h3_recv_body scripted sid k (cn (ex_rx_cst (ex_rx evs data) m cs h)) =
     (case next_answer (- 1, []) data of ((len, b), data') \<Rightarrow>
        Inr ((len, b), cn (ex_rx_cst (ex_rx evs data') m (cs @ [CallRecv sid len b]) h)))"
  by (cases data) (auto simp: ex_rx_cst_def ex_rx_def script_defs call_defs h3_recv_body_def split: prod.splits)

lemma ex_rx_set_cn: "(ex_rx_cst q m cs h)\<lparr>cn := cn (ex_rx_cst q' m' cs' h')\<rparr> = ex_rx_cst q' m' cs' h"
  by (simp add: ex_rx_cst_def)

lemma ex_rx_data:
  "handle_event (Suc (Suc (Suc n))) scripted cb 4 EvData (ex_rx_cst (ex_rx evs [(2, [7, 8]), (1, [9])]) [] [] h) =
     Inr (ex_rx_cst (ex_rx evs []) [(4, (new_incoming_stream 4)\<lparr>in_Buffer := [7, 8, 9]\<rparr>)]
       [CallRecv 4 2 [7, 8], CallRecv 4 1 [9], CallRecv 4 (- 1) []] h)"
proof -
  have g: "GetIncomingStream 4 True (cn (ex_rx_cst q [] cs h)) =
      (Some (new_incoming_stream 4), cn (ex_rx_cst q [(4, new_incoming_stream 4)] cs h))" for q cs
    by (simp add: GetIncomingStream_def ex_rx_cst_def um_find_def um_put_def)
  have p: "put_incoming 4 st (cn (ex_rx_cst q [(4, st0)] cs h)) = cn (ex_rx_cst q [(4, st)] cs h)" for st st0 q cs
    by (simp add: put_incoming_def ex_rx_cst_def um_put_def um_find_def)
  show ?thesis
    by (simp add: g p ex_rx_recv ex_rx_set_cn OnData_def new_incoming_stream_def)
qed

lemma ex_rx_finished:
  "handle_event n scripted (client_callbacks scripted []) 4 EvFinished (ex_rx_cst q [(4, st)] cs script_host) =
     Inr (ex_rx_cst q [] (cs @ [CallShutdown 4 ShutdownRead, CallShutdown 4 ShutdownWrite])
            (script_host\<lparr>mailbox := Post (data_event (script_conn False q) st) new_mailbox\<rparr>))"
  by (simp add: ex_rx_cst_def um_find_def um_erase_def client_callbacks_def client_on_data_def IsConnected_def
      script_defs post_def script_host_def data_event_def DestroyStream_def stream_shutdown_def call_defs)

lemma ex_rx_step:
  "ProcessH3Events (Suc n) scripted cb (ex_rx_cst (ex_rx ((4, ev) # evs) data) m cs h) =
     rbind (handle_event n scripted cb 4 ev (ex_rx_cst (ex_rx evs data) m cs h)) (ProcessH3Events n scripted cb)"
  by (simp add: ex_rx_poll ex_rx_set_cn)

lemma ex_rx_end:
  "ProcessH3Events (Suc n) scripted cb (ex_rx_cst (ex_rx [] data) m cs h) = Inr (ex_rx_cst (ex_rx [] data) m cs h)"
  by (simp add: ex_rx_poll ex_rx_set_cn)

lemma ex_rx_run:
  "\<exists>s'. ProcessH3Events 5 scripted (client_callbacks scripted []) ex_rx_state = Inr s' \<and>
     map ev_Stream (queued s') = [Some ((new_incoming_stream 4)\<lparr>in_Buffer := [7, 8, 9]\<rparr>)]"
proof -
  have 5: "(5 :: nat) = Suc (Suc (Suc (Suc (Suc 0))))" by simp
  show ?thesis
    unfolding 5 ex_rx_state_def ex_rx_step ex_rx_data ex_rx_finished rbind_simps ex_rx_end
    by (simp add: ex_rx_cst_def Post_def new_mailbox_def data_event_def)
qed

theorem responses_reassembled_witness:
  "\<exists>s' outs. ProcessH3Events 5 scripted (client_callbacks scripted []) ex_rx_state = Inr s' \<and>
     queued s' = map (data_event (cn ex_rx_state)) outs \<and> map in_Buffer outs = [[7, 8, 9]]"
proof -
  obtain s' where s': "ProcessH3Events 5 scripted (client_callbacks scripted []) ex_rx_state = Inr s'"
    "map ev_Stream (queued s') = [Some ((new_incoming_stream 4)\<lparr>in_Buffer := [7, 8, 9]\<rparr>)]" using ex_rx_run by (elim exE conjE)
  have pre: "q_err scripted QUICHE_ERR_DONE < 0" "connected (cn ex_rx_state)" "inbox_ids (inbox ex_rx_state)"
    "queued ex_rx_state = []"
    by (simp_all add: ex_rx_state_def ex_rx_cst_def inbox_ids_def um_find_def script_host_def new_mailbox_def)
  from responses_reassembled [OF s'(1) pre(1-3)] obtain outs where
    "queued s' = queued ex_rx_state @ map (data_event (cn ex_rx_state)) outs" by (elim exE conjE)
  then have q: "queued s' = map (data_event (cn ex_rx_state)) outs" by (simp add: pre(4))
  with s'(2) have "map in_Buffer outs = [[7, 8, 9]]" by (auto simp: data_event_def map_eq_Cons_conv)
  with s'(1) q show ?thesis by (intro exI conjI)
qed

section \<open>Authentication\<close>

text \<open>
  C10: An unauthenticated server reaches no callback. From the client's \<open>Connect\<close> on, through
  every interleaving of datagrams, timers, retries, requests, flushes, polls and the rest, as
  long as the certificate has not been accepted (\<open>connected_\<close> is not set), every event of
  the connection that was delivered or is queued is a Timeout: no Connect, no response.
\<close>

theorem unauthenticated_posts_nothing:
  assumes "Connect Q scid ep \<lparr>cn = Initialize False i d, hs = h\<rparr> = (True, s)" and "sock_inv [] (net h)"
    and "\<forall>e \<in> set (events (mailbox h)). ev_ConnectionAssignedId e \<noteq> i"
    and "conn_steps Q F (client_callbacks Q cert) (s, []) (s', taken)" and "\<not> connected (cn s')"
  shows "\<forall>e \<in> set (taken @ queued s'). ev_ConnectionAssignedId e = i \<longrightarrow> ev_Type e = TimeoutEvent"
proof -
  have "hs s = h" "AssignedId (cn s) = i" "outgoing_streams_by_id (cn s) = []" "incoming_streams_by_id (cn s) = []"
    "timed_out (cn s) = False"
    using assms(1) by (auto simp: Connect_def Let_def split: option.splits)
  then have "conn_inv i (s, [])"
    using assms(2,3) timeouts_none [OF assms(3)] by (auto simp: conn_inv_def um_inv_def)
  from cli.conn_steps_inv [OF assms(4) this] assms(5) show ?thesis by (simp add: conn_inv_def)
qed

definition ex_dcid0 :: conn_id where "ex_dcid0 = \<lparr>Id_bytes = replicate 16 0, Length = 16\<rparr>"

definition ex_connected :: "script cst" where
  "ex_connected = snd (Connect scripted ex_dcid0 script_peer \<lparr>cn = Initialize False 0 ex_dcid0, hs = script_host\<rparr>)"

text \<open>The handshake completes with a certificate that is not the client's: nothing is posted.\<close>

lemma ex_bad_cert:
  "\<exists>s'. OnDatagram 3 scripted kept_memory (client_callbacks scripted [1, 2]) [0] script_peer ex_connected = Inr s' \<and>
     \<not> connected (cn s') \<and> map ev_ConnectionAssignedId (queued s') = [0]"
  by (simp add: OnDatagram_def datagram_established_def datagram_end_def ex_connected_def Connect_def script_host_def
      Initialize_def idle_def call_defs client_callbacks_def client_on_connect_def ComparePeerCertificate_def to_i32_def
      conn_close_def client_on_timeout_def client_Close_host_def post_def Post_def new_mailbox_def numeral_3_eq_3
      Let_def signed_take_bit_def)

theorem unauthenticated_posts_nothing_witness:
  "\<exists>s'. OnDatagram 3 scripted kept_memory (client_callbacks scripted [1, 2]) [0] script_peer ex_connected = Inr s' \<and>
     map ev_Type (queued s') = [TimeoutEvent]"
proof -
  obtain s' where s': "OnDatagram 3 scripted kept_memory (client_callbacks scripted [1, 2]) [0] script_peer ex_connected = Inr s'"
    "\<not> connected (cn s')" "map ev_ConnectionAssignedId (queued s') = [0]" using ex_bad_cert by (elim exE conjE)
  have c: "Connect scripted ex_dcid0 script_peer \<lparr>cn = Initialize False 0 ex_dcid0, hs = script_host\<rparr> = (True, ex_connected)"
    by (simp add: ex_connected_def Connect_def Let_def)
  have h: "sock_inv [] (net script_host)" "\<forall>e \<in> set (events (mailbox script_host)). ev_ConnectionAssignedId e \<noteq> 0"
    by (simp_all add: script_host_def sock_inv_new new_mailbox_def)
  have "conn_steps scripted kept_memory (client_callbacks scripted [1, 2]) (ex_connected, []) (s', [])"
    by (rule r_into_rtranclp, rule conn_datagram, rule s'(1))
  from unauthenticated_posts_nothing [OF c h this s'(2)] s'(3) have "map ev_Type (queued s') = [TimeoutEvent]" by auto
  with s'(1) show ?thesis by (intro exI conjI)
qed

section \<open>Calls before the connection exists\<close>

text \<open>
  C37: Two calls reach the client's connection before \<open>Connect\<close> has given it a
  \<open>quiche_conn\<close>. After the resolver's \<open>Add\<close>, a pass of the sender's thread that comes
  before \<open>Connect\<close> flushes the connection through the null pointer; and a \<open>Request\<close> on a
  client whose handshake has not produced the HTTP/3 object does so too.
\<close>

theorem calls_before_connect:
  "(\<exists>r. Add (connection (new_client cs cert d loc)) (cl_sender (new_client cs cert d loc)) = Inr r \<and>
      Loop_round (Suc n) Q F (client_callbacks Q cert) buffer r h = Inl NullDeref) \<and>
   Request env n Q F path info body (new_client cs cert d loc) = Inl NullDeref"
proof -
  have "Request env n Q F path info body (new_client cs cert d loc) = Inl NullDeref"
    by (simp add: Request_def new_client_def on_connection_def deref_def make_shared_def new_registry_def
        SendRequest.simps [of env] SendRequest_attempt_def h3_send_request_def call_defs Initialize_def Let_def)
  moreover have "\<exists>r. Add (connection (new_client cs cert d loc)) (cl_sender (new_client cs cert d loc)) = Inr r \<and>
      Loop_round (Suc n) Q F (client_callbacks Q cert) buffer r h = Inl NullDeref"
    by (simp add: new_client_def Add_def Loop_round_def deref_def make_shared_def new_registry_def um_put_def um_find_def
        Initialize_def FlushEgress_def FlushCachedResponses_def FlushTransfers_def call_defs Let_def
        split: option.split prod.split)
  ultimately show ?thesis by (intro conjI)
qed

end
