(* ===== verification/QS_PyProps.thy ===== *)
theory QS_PyProps
  imports QS_PyApi QS_ClientProps
begin

text \<open>
  Properties of the C interface for Python: what a response and a request look like when they
  reach the callbacks of the other side, and where the interface loses something.
\<close>

section \<open>Headers end to end\<close>

lemma header_names:
  "QUICSEND_HEADER_INFO \<noteq> '':status''" "QUICSEND_HEADER_INFO \<noteq> '':path''" "QUICSEND_HEADER_INFO \<noteq> ''content-type''"
  "QUICSEND_HEADER_INFO \<noteq> ''Authorization''" "QUICSEND_HEADER_INFO \<noteq> ''content-length''"
  "QUICSEND_HEADER_INFO \<noteq> ''server''" "QUICSEND_HEADER_INFO \<noteq> '':method''"
  by (simp_all add: QUICSEND_HEADER_INFO_def)

lemmas header_reading = add_headers_value header_value_def map_add_def header_names header_names [symmetric]

lemma response_headers_read:
  fixes st :: incoming_stream
  shows "Status (add_headers (response_headers status info body) st) = to_string status"
    and "HeaderInfo (add_headers (response_headers status info body) st) = info"
    and "ContentType (add_headers (response_headers status info body) st) =
      (if Empty body then ContentType st else the (bd_ContentType body))"
  by (simp_all add: response_headers_def header_reading)

lemma request_headers_read:
  fixes st :: incoming_stream
  shows "Path (add_headers (request_headers cs path info body) st) = path"
    and "HeaderInfo (add_headers (request_headers cs path info body) st) = info"
    and "ContentType (add_headers (request_headers cs path info body) st) =
      (if Empty body then ContentType st else the (bd_ContentType body))"
    and "Authorization (add_headers (request_headers cs path info body) st) =
      (if Empty body then cs_Authorization cs else ''Bearer '' @ cs_Authorization cs)"
  by (simp_all add: request_headers_def header_reading)

text \<open>
  C20: A response arrives as it was given. The headers \<open>Respond\<close> builds for a status, a header
  info and a body, read back by \<open>OnHeader\<close> on the other side with the body's data and routed
  to Python, call the response callback with that status (through \<open>to_string\<close> and \<open>atoi\<close>),
  that info, the body's content type and bytes, and their number.
\<close>

theorem response_end_to_end:
  assumes "\<not> Empty body" and "length data < 2 ^ 31" and "data \<noteq> []"
    and "stream = OnData data (add_headers (response_headers status info body) (new_incoming_stream i))"
    and "ev_Type e = DataEvent" and "ev_Stream e = Some stream"
  shows "route_event show_addr False True e st = Inr (py_add
    (PyResponse (ev_ConnectionAssignedId e) (sint i) status info (the (bd_ContentType body)) data (int (length data))) st)"
proof -
  have f: "Status (OnData data x) = Status x" "HeaderInfo (OnData data x) = HeaderInfo x"
    "ContentType (OnData data x) = ContentType x" for x by (simp_all add: OnData_def)
  have b: "in_Buffer stream = data" "in_Id stream = i"
    using assms(4) by (simp_all add: new_incoming_stream_def)
  show ?thesis
    using assms(1-3,5,6) b
    by (simp add: route_event_def assms(4) f response_headers_read atoi_to_string to_i32_id
        create_python_view_object_def Py_DECREF_def Let_def)
qed

definition ex_body :: body_data where
  "ex_body = \<lparr>bd_ContentType = Some ''text/plain'', bd_Data = Some [104, 105], bd_Length = 2\<rparr>"

theorem response_end_to_end_witness:
  "route_event (\<lambda>a. '''') False True
     (new_event\<lparr>ev_Type := DataEvent, ev_ConnectionAssignedId := 1,
        ev_Stream := Some (OnData [104, 105] (add_headers (response_headers 404 ''i'' ex_body) (new_incoming_stream 4)))\<rparr>)
     \<lparr>py_calls = [], none_refs = 0\<rparr> =
   Inr \<lparr>py_calls = [PyResponse 1 4 404 ''i'' ''text/plain'' [104, 105] 2], none_refs = 0\<rparr>"
  by (subst response_end_to_end [of ex_body "[104, 105]" _ 404 "''i''" 4]) (simp_all add: ex_body_def Empty_def py_add_def)


definition ex_py_settings :: py_client_settings where
  "ex_py_settings = \<lparr>pcs_AuthToken = Some ''t'', pcs_Host = Some ''h'', pcs_CertPath = Some ''c'', pcs_Port = 443\<rparr>"


section \<open>Bodies\<close>

text \<open>
  C27: The size of a body survives the conversion below two gigabytes and not above. A body
  with a content type of fewer than 2^31 bytes keeps its length and is empty only if it has
  no bytes; one whose size is a multiple of 2^32 is taken for no body at all.
\<close>

theorem body_conversion:
  assumes "pb_Data b = Some view" and "pb_ContentType b = Some t"
  shows "(length view < 2 ^ 31 \<longrightarrow>
      bd_Length (to_body_data b) = int (length view) \<and> (Empty (to_body_data b) \<longleftrightarrow> view = [])) \<and>
    (2 ^ 32 dvd length view \<longrightarrow> Empty (to_body_data b))"
proof -
  have "to_i32 (int (length view)) = 0" if "2 ^ 32 dvd length view"
  proof -
    have "int (2 ^ 32) dvd int (length view)" using that by (rule of_nat_dvd_iff [THEN iffD2])
    then have "take_bit (Suc 31) (int (length view)) = 0" by (simp add: take_bit_eq_0_iff)
    then show ?thesis unfolding to_i32_def by (metis signed_take_bit_eq_iff_take_bit_eq signed_take_bit_of_0 take_bit_of_0)
  qed
  with assms show ?thesis by (auto simp: to_body_data_def Empty_def c_str_def to_i32_id)
qed

theorem body_conversion_witness:
  "(\<exists>view. length view = 2 ^ 32 \<and> Empty (to_body_data \<lparr>pb_ContentType = Some ''t'', pb_Data = Some view\<rparr>)) \<and>
   \<not> Empty (to_body_data \<lparr>pb_ContentType = Some ''t'', pb_Data = Some [7]\<rparr>)"
proof -
  obtain view :: bytes where v: "length view = 2 ^ 32" using Ex_list_of_length by blast
  then have d: "2 ^ 32 dvd length view" by simp
  have b: "pb_Data \<lparr>pb_ContentType = Some ''t'', pb_Data = Some xs\<rparr> = Some xs"
    "pb_ContentType \<lparr>pb_ContentType = Some ''t'', pb_Data = Some xs\<rparr> = Some ''t''" for xs by simp_all
  from body_conversion [OF b, of view] d v body_conversion [OF b, of "[7]"] show ?thesis by auto
qed

section \<open>Polling\<close>

text \<open>What one event means to the callbacks; an event that carries no stream is for none.\<close>

definition stream_call :: "bool \<Rightarrow> u64 \<Rightarrow> incoming_stream \<Rightarrow> py_call" where
  "stream_call has_request i st =
     (let n = to_i32 (int (length (in_Buffer st))) in
      if has_request then PyRequest i (sint (in_Id st)) (Path st) (HeaderInfo st) (ContentType st) (in_Buffer st) n
      else PyResponse i (sint (in_Id st)) (atoi (Status st)) (HeaderInfo st) (ContentType st) (in_Buffer st) n)"

definition event_calls :: "(address \<Rightarrow> string) \<Rightarrow> bool \<Rightarrow> event \<Rightarrow> py_call list" where
  "event_calls show_addr has_request e =
     (case ev_Type e of
        ConnectEvent \<Rightarrow> [PyConnect (ev_ConnectionAssignedId e) (EndpointToString show_addr (ev_PeerEndpoint e))]
      | TimeoutEvent \<Rightarrow> [PyTimeout (ev_ConnectionAssignedId e)]
      | DataEvent \<Rightarrow> (case ev_Stream e of None \<Rightarrow> [] | Some st \<Rightarrow> [stream_call has_request (ev_ConnectionAssignedId e) st])
      | Invalid \<Rightarrow> [])"

definition well_formed :: "event \<Rightarrow> bool" where
  "well_formed e \<longleftrightarrow> (ev_Type e = DataEvent \<longrightarrow> ev_Stream e \<noteq> None)"

definition bodyless :: "event list \<Rightarrow> event list" where
  "bodyless es = filter (\<lambda>e. ev_Type e = DataEvent \<and> (\<exists>st. ev_Stream e = Some st \<and> in_Buffer st = [])) es"

lemma bodyless_simps [simp]: "bodyless [] = []" "bodyless (xs @ ys) = bodyless xs @ bodyless ys"
  by (simp_all add: bodyless_def)

definition seen :: "(address \<Rightarrow> string) \<Rightarrow> bool \<Rightarrow> event list \<Rightarrow> py_state \<Rightarrow> py_state" where
  "seen show_addr has_request es st =
     st\<lparr>py_calls := py_calls st @ concat (map (event_calls show_addr has_request) es),
        none_refs := none_refs st - int (length (bodyless es))\<rparr>"

lemma seen_append: "seen show_addr rq ys (seen show_addr rq xs st) = seen show_addr rq (xs @ ys) st"
  by (simp add: seen_def)

lemma route_event_seen:
  "well_formed e \<Longrightarrow> rq \<or> rs \<Longrightarrow> route_event show_addr rq rs e st = Inr (seen show_addr rq [e] st)"
  by (cases "ev_Type e")
     (auto simp: route_event_def well_formed_def seen_def event_calls_def stream_call_def bodyless_def py_add_def
      create_python_view_object_def Py_DECREF_def Let_def)

lemma route_events_seen:
  "\<forall>e \<in> set es. well_formed e \<Longrightarrow> rq \<or> rs \<Longrightarrow> route_events show_addr rq rs es st = Inr (seen show_addr rq es st)"
proof (induction es arbitrary: st)
  case Nil
  show ?case by (simp add: seen_def)
next
  case (Cons e es)
  then show ?case by (simp add: route_event_seen seen_append)
qed

text \<open>A run of posts and polls; a poll that has nothing to wait for times out at once.\<close>

fun py_run ::
    "(address \<Rightarrow> string) \<Rightarrow> bool \<Rightarrow> bool \<Rightarrow> event qop list \<Rightarrow> event mailbox \<Rightarrow> py_state \<Rightarrow> (event mailbox \<times> py_state) run" where
  "py_run show_addr rq rs [] mb st = Inr (mb, st)"
| "py_run show_addr rq rs (Push e # ops) mb st = py_run show_addr rq rs ops (Post e mb) st"
| "py_run show_addr rq rs (Drain # ops) mb st =
     (case poll_mailbox show_addr rq rs 0 mb st of
        None \<Rightarrow> Inl Diverges
      | Some r \<Rightarrow> rbind r (\<lambda>(mb, st). py_run show_addr rq rs ops mb st))"

lemma py_run_spec:
  assumes "\<not> terminated mb" and "\<forall>e \<in> set (events mb @ pushes ops). well_formed e" and "rq \<or> rs"
    and "bq_run Post Poll_swap ops mb = (outs, mb')"
  shows "py_run show_addr rq rs ops mb st = Inr (mb', seen show_addr rq outs st)"
  using assms
proof (induction ops arbitrary: mb st outs)
  case Nil
  then show ?case by (simp add: seen_def)
next
  case (Cons op ops)
  show ?case
  proof (cases op)
    case (Push e)
    with Cons.prems Cons.IH [of "Post e mb" outs] show ?thesis by (simp add: Post_def)
  next
    case Drain
    obtain outs1 where r: "bq_run Post Poll_swap ops (snd (Poll_swap mb)) = (outs1, mb')"
      and o: "outs = fst (Poll_swap mb) @ outs1"
      using Cons.prems(4) Drain by (cases "bq_run Post Poll_swap ops (snd (Poll_swap mb))") (auto simp: case_prod_unfold)
    have p: "fst (Poll_swap mb) = events mb" "events (snd (Poll_swap mb)) = []" "\<not> terminated (snd (Poll_swap mb))"
      using Cons.prems(1) by (auto simp: Poll_swap_def)
    have wf: "\<forall>e \<in> set (events mb). well_formed e" using Cons.prems(2) by simp
    have "py_run show_addr rq rs ops (snd (Poll_swap mb)) st = Inr (mb', seen show_addr rq outs1 st)" for st
      using Cons.IH [OF p(3) _ Cons.prems(3) r] Cons.prems(2) Drain p(2) by simp
    then show ?thesis
      using Drain o p(1) route_events_seen [OF wf Cons.prems(3)]
      by (simp add: poll_mailbox_def case_prod_unfold seen_append)
  qed
qed

text \<open>
  C19: Python sees every event once and in order. Starting from an empty mailbox, whatever
  events are posted and however the polls fall between them, the callbacks made so far
  followed by those for the events still queued are exactly the calls for the posted events
  in the order they were posted; no run fails.
\<close>

theorem python_sees_events_in_order:
  assumes "\<forall>e \<in> set (pushes ops). well_formed e" and "rq \<or> rs"
  shows "\<exists>mb st'. py_run show_addr rq rs ops new_mailbox st = Inr (mb, st') \<and>
    py_calls st' @ concat (map (event_calls show_addr rq) (events mb)) =
      py_calls st @ concat (map (event_calls show_addr rq) (pushes ops))"
proof -
  obtain outs mb where r: "bq_run Post Poll_swap ops new_mailbox = (outs, mb)" by fastforce
  have m: "\<not> terminated (new_mailbox :: event mailbox)" "events (new_mailbox :: event mailbox) = []"
    by (simp_all add: new_mailbox_def)
  have "pushes ops = outs @ events mb" using mbq.exactly_once_in_order(1) [OF m(1) r] m(2) by simp
  moreover have "py_run show_addr rq rs ops new_mailbox st = Inr (mb, seen show_addr rq outs st)"
    using py_run_spec [OF m(1) _ assms(2) r] assms(1) m(2) by simp
  ultimately show ?thesis by (simp add: seen_def)
qed

theorem python_sees_events_in_order_witness:
  "\<exists>mb st. py_run (\<lambda>a. ''a'') True False [Push (timeout_event 1), Drain, Push (timeout_event 2)] new_mailbox
      \<lparr>py_calls = [], none_refs = 0\<rparr> = Inr (mb, st) \<and>
    py_calls st @ concat (map (event_calls (\<lambda>a. ''a'') True) (events mb)) = [PyTimeout 1, PyTimeout 2]"
  using python_sees_events_in_order [of "[Push (timeout_event 1), Drain, Push (timeout_event 2)]" True False
      "\<lambda>a. ''a''" "\<lparr>py_calls = [], none_refs = 0\<rparr>"]
  by (simp add: well_formed_def event_calls_def)

text \<open>
  C38: Every event without a body costs a reference to \<open>None\<close>. Whatever events a poll
  routes, the count of \<open>Py_None\<close> afterwards is lower by the number of Data events with an
  empty body, since \<open>create_python_view_object\<close> returns it without taking a reference.
\<close>

theorem none_loses_references:
  assumes "route_events show_addr rq rs es st = Inr st'" and "rq \<or> rs"
  shows "none_refs st' = none_refs st - int (length (bodyless es))"
  using assms(1)
proof (induction es arbitrary: st)
  case (Cons e es)
  from Cons.prems obtain st1 where 1: "route_event show_addr rq rs e st = Inr st1"
    and 2: "route_events show_addr rq rs es st1 = Inr st'" by (auto elim!: rbindE)
  have "well_formed e" using 1 assms(2) by (cases "ev_Stream e") (auto simp: well_formed_def route_event_def)
  from route_event_seen [OF this assms(2)] 1 have "st1 = seen show_addr rq [e] st" by simp
  with Cons.IH [OF 2] have "none_refs st' = none_refs st - int (length (bodyless [e])) - int (length (bodyless es))"
    by (simp add: seen_def)
  moreover have "bodyless (e # es) = bodyless [e] @ bodyless es" using bodyless_simps(2) [of "[e]" es] by simp
  ultimately show ?case by simp
qed simp

theorem none_loses_references_witness:
  "\<exists>st. route_events (\<lambda>a. ''a'') True False
      (replicate 2 (new_event\<lparr>ev_Type := DataEvent, ev_Stream := Some (new_incoming_stream 0)\<rparr>))
      \<lparr>py_calls = [], none_refs = 0\<rparr> = Inr st \<and> none_refs st = - 2"
proof -
  let ?e = "new_event\<lparr>ev_Type := DataEvent, ev_Stream := Some (new_incoming_stream 0)\<rparr>"
  have "\<exists>st. route_events (\<lambda>a. ''a'') True False (replicate 2 ?e) \<lparr>py_calls = [], none_refs = 0\<rparr> = Inr st"
    by (simp add: numeral_2_eq_2 route_event_def Let_def)
  then obtain st where r: "route_events (\<lambda>a. ''a'') True False (replicate 2 ?e) \<lparr>py_calls = [], none_refs = 0\<rparr> = Inr st" ..
  moreover have "length (bodyless (replicate 2 ?e)) = 2"
    by (simp add: bodyless_def numeral_2_eq_2 new_incoming_stream_def)
  ultimately show ?thesis using none_loses_references [OF r] by simp
qed



end
