(* ===== verification/QS_Request.thy ===== *)
theory QS_Request
  imports QS_Client QS_SendSpec QS_Script
begin

text \<open>
  The client's requests: \<open>requests\<close> is what \<open>quiche_h3_send_request\<close> was called with and
  answered along a record of calls. \<open>SendRequest\<close> repeats a blocked call; nothing else it
  does (sending the body, flushing, reporting a timeout) issues a request.
\<close>

fun request_of :: "qcall \<Rightarrow> (header list \<times> bool \<times> int) list" where
  "request_of (CallRequest hdrs fin r) = [(hdrs, fin, r)]"
| "request_of _ = []"

definition requests :: "'q qconn \<Rightarrow> (header list \<times> bool \<times> int) list" where
  "requests c = concat (map request_of (calls c))"

lemma requests_append: "calls c' = calls c @ cs \<Longrightarrow> requests c' = requests c @ concat (map request_of cs)"
  by (simp add: requests_def)

lemma request_of_stream: "call_stream x = Some k \<Longrightarrow> request_of x = []"
  by (cases x) simp_all

text \<open>\<open>silent r rs\<close>: if the call returns, \<open>rs\<close> are the requests so far.\<close>

definition silent :: "('a \<times> 'q qconn) run \<Rightarrow> (header list \<times> bool \<times> int) list \<Rightarrow> bool" where
  "silent r rs \<longleftrightarrow> (\<forall>x c. r = Inr (x, c) \<longrightarrow> requests c = rs)"

lemma silent_Inr [simp]: "silent (Inr (x, c)) rs \<longleftrightarrow> requests c = rs"
  by (simp add: silent_def)

lemma silent_bind:
  assumes "silent r rs" and "\<And>x c. requests c = rs \<Longrightarrow> silent (f (x, c)) rs"
  shows "silent (rbind r f) rs"
  using assms unfolding silent_def by (auto elim!: rbindE)

lemma silent_body: "requests c = rs \<Longrightarrow> silent (h3_send_body Q sid data fin c) rs"
  by (auto simp: silent_def h3_send_body_def call_h3_def call_conn_def record_call_def requests_def
      elim!: rbindE split: if_splits option.splits)

lemma flush_stream_silent: "requests c = rs \<Longrightarrow> silent (flush_stream Q st c) rs"
  unfolding flush_stream_def Let_def by (auto intro!: silent_bind silent_body)

lemma flush_streams_silent:
  "flush_streams Q m c = Inr (m', ids, c') \<Longrightarrow> requests c' = requests c"
proof (induction m arbitrary: c m' ids)
  case (Cons e m)
  obtain k st where e: "e = (k, st)" by (cases e)
  from Cons.prems e obtain brk completed st' c1 where
    f: "flush_stream Q st c = Inr ((brk, completed, st'), c1)"
    and rest: "(if brk then Inr ((k, st') # m, [], c1)
        else rbind (flush_streams Q m c1) (\<lambda>(rest', ids, c).
          Inr ((k, st') # rest', (if completed then [out_Id st'] else []) @ ids, c))) = Inr (m', ids, c')"
    by (auto simp: rbind_eq_Inr)
  have c1: "requests c1 = requests c" using flush_stream_silent [OF refl] f unfolding silent_def by blast
  show ?case
  proof (cases brk)
    case True
    with rest c1 show ?thesis by simp
  next
    case False
    with rest obtain m1 ids1 where "flush_streams Q m c1 = Inr (m1, ids1, c')" by (auto simp: rbind_eq_Inr)
    from Cons.IH [OF this] c1 show ?thesis by simp
  qed
qed simp

lemma FlushTransfers_silent: "FlushTransfers Q c = Inr c' \<Longrightarrow> requests c' = requests c"
  by (auto simp: FlushTransfers_def requests_def rbind_eq_Inr dest!: flush_streams_silent)

lemma FlushCachedResponses_silent:
  assumes "FlushCachedResponses Q F c = Inr c'"
  shows "requests c' = requests c"
proof -
  from FlushCachedResponses_spec [OF assms] obtain cs c1 where oc: "only_calls c cs c1"
    and c': "c' = c1\<lparr>response_cache := response_cache c'\<rparr>"
    and st: "\<forall>x \<in> set cs. \<exists>k. call_stream x = Some k" by blast
  have "concat (map request_of cs) = []" using st by (auto dest: request_of_stream)
  moreover have "calls c' = calls c1" by (subst c') simp
  then have "calls c' = calls c @ cs" using only_calls_frame(1) [OF oc] by simp
  ultimately show ?thesis by (simp add: requests_append)
qed

text \<open>The two answers after which \<open>SendRequest\<close> tries again.\<close>

definition blocked_answer :: "'q quiche \<Rightarrow> int \<Rightarrow> bool" where
  "blocked_answer Q i \<longleftrightarrow> i = H3_BLOCKED Q \<or> i = q_h3err Q QUICHE_H3_TRANSPORT_ERR_STREAM_LIMIT"

context conn_owner
begin

lemma FlushEgress_local_silent:
  assumes "FlushEgress_local n Q F cb s = Inr (sent, s')"
  shows "requests (cn s') = requests (cn s)"
proof -
  from assms obtain b s1 where f: "FlushEgress n Q F cb None s = Inr ((sent, b), s1)" and s': "cn s' = cn s1"
    by (auto simp: FlushEgress_local_def elim!: rbindE)
  from f obtain c1 c2 finished s3 where 1: "FlushCachedResponses Q F (cn s) = Inr c1"
    and 2: "FlushTransfers Q c1 = Inr c2"
    and 3: "egress_loop n Q None False (s\<lparr>cn := c2\<rparr>) = Inr ((finished, sent, b), s3)"
    and 4: "if finished then TickTimeout Q cb s3 = Inr s1 else s1 = s3"
    by (rule FlushEgress_parts)
  have "requests (cn s3) = requests c2" using egress_loop_spec [OF 3] by (auto simp: requests_def)
  moreover have "requests (cn s1) = requests (cn s3)"
    using 4 by (auto simp: requests_def split: if_splits dest: TickTimeout_frame)
  ultimately show ?thesis using FlushCachedResponses_silent [OF 1] FlushTransfers_silent [OF 2] s' by simp
qed

lemma SendBody_silent:
  assumes "SendBody n Q F cb sid data bytes s = Inr (ok, s')"
  shows "requests (cn s') = requests (cn s)"
proof -
  have body: "requests c' = requests c" if "h3_send_body Q sid data fin c = Inr (r, c')" for data fin c r c'
    using silent_body [OF refl] that unfolding silent_def by blast
  have queue: "requests (queue_body sid rest c) = requests c" for rest c
    by (simp add: requests_def queue_body_frame)
  show ?thesis
  proof (cases "bytes \<le> 0")
    case True
    with assms obtain x where "FlushEgress_local n Q F cb s = Inr (x, s')" by (auto simp: SendBody_def elim!: rbindE)
    then show ?thesis by (rule FlushEgress_local_silent)
  next
    case False
    with assms obtain rc c1 where b: "h3_send_body Q sid (take (nat bytes) data) False (cn s) = Inr (rc, c1)"
      and rest: "(let rc = (if rc < 0 then 0 else rc) in if rc < bytes
          then rbind (FlushEgress_local n Q F cb (s\<lparr>cn := queue_body sid (drop (nat rc) (take (nat bytes) data)) c1\<rparr>))
                 (\<lambda>(_, s). Inr (True, s))
          else rbind (h3_send_body Q sid [] True c1) (\<lambda>(rc, c).
                 if rc < 0 then Inr (False, s\<lparr>cn := c\<rparr>)
                 else rbind (FlushEgress_local n Q F cb (s\<lparr>cn := c\<rparr>)) (\<lambda>(_, s). Inr (True, s)))) = Inr (ok, s')"
      by (auto simp: SendBody_def elim!: rbindE)
    let ?rc = "if rc < 0 then 0 else rc"
    note c1 = body [OF b]
    show ?thesis
    proof (cases "?rc < bytes")
      case True
      with rest obtain x where
        "FlushEgress_local n Q F cb (s\<lparr>cn := queue_body sid (drop (nat ?rc) (take (nat bytes) data)) c1\<rparr>) = Inr (x, s')"
        by (auto simp only: Let_def if_True elim!: rbindE)
      from FlushEgress_local_silent [OF this] c1 show ?thesis by (simp add: queue)
    next
      case False
      with rest obtain r2 c2 where b2: "h3_send_body Q sid [] True c1 = Inr (r2, c2)"
        and end_: "(if r2 < 0 then Inr (False, s\<lparr>cn := c2\<rparr>)
                 else rbind (FlushEgress_local n Q F cb (s\<lparr>cn := c2\<rparr>)) (\<lambda>(_, s). Inr (True, s))) = Inr (ok, s')"
        by (simp only: Let_def if_False) (auto elim!: rbindE)
      show ?thesis
      proof (cases "r2 < 0")
        case True
        with end_ body [OF b2] c1 show ?thesis by auto
      next
        case False
        with end_ obtain x where "FlushEgress_local n Q F cb (s\<lparr>cn := c2\<rparr>) = Inr (x, s')" by (auto elim!: rbindE)
        from FlushEgress_local_silent [OF this] body [OF b2] c1 show ?thesis by simp
      qed
    qed
  qed
qed

text \<open>One attempt adds one request; its result is what quiche answered.\<close>

lemma SendRequest_attempt_requests:
  assumes "SendRequest_attempt n Q F cb headers data bytes s = Inr (r, s')"
  shows "\<exists>i. requests (cn s') = requests (cn s) @ [(headers, bytes \<le> 0, i)] \<and>
    (case r of None \<Rightarrow> blocked_answer Q i | Some k \<Rightarrow> k = (if i < 0 then - 1 else i))"
proof -
  from assms obtain i c established where h: "h3_send_request Q headers (bytes \<le> 0) (cn s) = Inr (i, c)"
    and rest: "(if (i = H3_BLOCKED Q \<or> i = q_h3err Q QUICHE_H3_TRANSPORT_ERR_STREAM_LIMIT) \<and> established
       then Inr (None, s\<lparr>cn := c\<rparr>)
       else if i < 0 then Inr (Some (- 1), s\<lparr>cn := c\<rparr>)
       else rbind (SendBody n Q F cb (word_of_int i) data bytes (s\<lparr>cn := c\<rparr>)) (\<lambda>(_, s).
         Inr (Some i, s))) = Inr (r, s')"
    by (auto simp: SendRequest_attempt_def elim!: rbindE)
  have c: "requests c = requests (cn s) @ [(headers, bytes \<le> 0, i)]"
    using h by (auto simp: h3_send_request_def call_h3_def call_conn_def record_call_def requests_def
        elim!: rbindE split: if_splits option.splits)
  have body: "requests (cn s') = requests c"
    if "SendBody n Q F cb (word_of_int i) data bytes (s\<lparr>cn := c\<rparr>) = Inr (ok, s')" for ok
    using SendBody_silent [OF that] by simp
  with c rest show ?thesis
    by (intro exI [of _ i]) (auto simp: blocked_answer_def split: if_splits elim!: rbindE)
qed

end


section \<open>A request is issued once\<close>

text \<open>How a call of \<open>SendRequest\<close> went: \<open>rs\<close> are the answers quiche gave it, in order.\<close>

definition answered :: "'q quiche \<Rightarrow> nat \<Rightarrow> int list \<Rightarrow> int \<Rightarrow> bool \<Rightarrow> bool" where
  "answered Q pauses rs i gone \<longleftrightarrow> (\<exists>blocked final. rs = blocked @ final \<and> length blocked \<le> pauses \<and>
     (\<forall>r \<in> set blocked. blocked_answer Q r) \<and>
     (final = [] \<and> i = - 1 \<and> gone \<or> (\<exists>r. final = [r] \<and> i = (if r < 0 then - 1 else r))))"

lemma answered_blocked: "blocked_answer Q r \<Longrightarrow> answered Q k rs i gone \<Longrightarrow> answered Q (Suc k) (r # rs) i gone"
  unfolding answered_def by (elim exE conjE) (rule exI [of _ "r # blocked" for blocked], auto)

lemma answered_final: "i = (if r < 0 then - 1 else r) \<Longrightarrow> answered Q k [r] i gone"
  unfolding answered_def by (intro exI [of _ "[]"] exI [of _ "[r]"]) simp

lemma answered_gone: "answered Q k [] (- 1) True"
  by (simp add: answered_def)

lemma SendRequest_answered:
  "SendRequest env n Q F (client_callbacks Q cert) headers data bytes s = Inr (i, s') \<Longrightarrow>
   \<forall>e \<in> set env. \<forall>t. requests (cn (e t)) = requests (cn t) \<Longrightarrow>
   \<exists>rs. requests (cn s') = requests (cn s) @ map (\<lambda>r. (headers, bytes \<le> 0, r)) rs \<and>
     answered Q (length env) rs i (timed_out (cn s'))"
proof (induction env arbitrary: s)
  case Nil
  show ?case
  proof (cases "timed_out (cn s)")
    case True
    with Nil show ?thesis
      by (intro exI [of _ "[]"]) (auto simp: SendRequest.simps [of "[]"] answered_gone)
  next
    case False
    with Nil obtain k where a: "SendRequest_attempt n Q F (client_callbacks Q cert) headers data bytes s = Inr (Some i, s')"
      by (auto simp: SendRequest.simps [of "[]"] elim!: rbindE split: option.splits)
    from cli.SendRequest_attempt_requests [OF a] obtain r where
      "requests (cn s') = requests (cn s) @ [(headers, bytes \<le> 0, r)]" "i = (if r < 0 then - 1 else r)"
      by auto
    then show ?thesis by (intro exI [of _ "[r]"]) (auto intro: answered_final)
  qed
next
  case (Cons e env)
  show ?case
  proof (cases "timed_out (cn s)")
    case True
    with Cons.prems(1) show ?thesis
      by (intro exI [of _ "[]"]) (auto simp: SendRequest.simps [of "e # env"] answered_gone)
  next
    case False
    with Cons.prems(1) obtain k s1 where
      a: "SendRequest_attempt n Q F (client_callbacks Q cert) headers data bytes s = Inr (k, s1)"
      and rest: "(case k of Some j \<Rightarrow> Inr (j, s1)
         | None \<Rightarrow> SendRequest env n Q F (client_callbacks Q cert) headers data bytes (e s1)) = Inr (i, s')"
      by (auto simp: SendRequest.simps [of "e # env"] elim!: rbindE split: option.splits)
    from cli.SendRequest_attempt_requests [OF a] obtain r where
      r: "requests (cn s1) = requests (cn s) @ [(headers, bytes \<le> 0, r)]"
        "case k of None \<Rightarrow> blocked_answer Q r | Some j \<Rightarrow> j = (if r < 0 then - 1 else r)"
      by blast
    show ?thesis
    proof (cases k)
      case (Some j)
      with r rest have "requests (cn s') = requests (cn s) @ [(headers, bytes \<le> 0, r)]" "i = (if r < 0 then - 1 else r)"
        by simp_all
      then show ?thesis by (intro exI [of _ "[r]"]) (simp add: answered_final)
    next
      case None
      with rest have "SendRequest env n Q F (client_callbacks Q cert) headers data bytes (e s1) = Inr (i, s')" by simp
      from Cons.IH [OF this] Cons.prems(2) obtain rs where
        rs: "requests (cn s') = requests (cn (e s1)) @ map (\<lambda>r. (headers, bytes \<le> 0, r)) rs"
          "answered Q (length env) rs i (timed_out (cn s'))" by auto
      have "requests (cn (e s1)) = requests (cn s1)" using Cons.prems(2) by simp
      with rs r None show ?thesis
        by (intro exI [of _ "r # rs"]) (simp add: answered_blocked)
    qed
  qed
qed

text \<open>
  C13: A request is issued once. When \<open>SendRequest\<close> returns while the other threads issue no
  request, every attempt it made carried the caller's headers and the same FIN flag, every
  answer but the last was "blocked" or "stream limit", and there was at most one attempt more
  than pauses. The call returns the stream id of the last answer, or -1 for an error; with no
  final answer it returns -1 and the connection has timed out.
\<close>

theorem request_issued_once:
  assumes "SendRequest env n Q F (client_callbacks Q cert) headers data bytes s = Inr (i, s')"
    and "\<forall>e \<in> set env. \<forall>t. requests (cn (e t)) = requests (cn t)"
  shows "\<exists>blocked final. requests (cn s') = requests (cn s) @ map (\<lambda>r. (headers, bytes \<le> 0, r)) (blocked @ final) \<and>
    length blocked \<le> length env \<and> (\<forall>r \<in> set blocked. blocked_answer Q r) \<and>
    (final = [] \<and> i = - 1 \<and> timed_out (cn s') \<or> (\<exists>r. final = [r] \<and> i = (if r < 0 then - 1 else r)))"
  using SendRequest_answered [OF assms] unfolding answered_def by blast


text \<open>A library whose answers to requests are scripted: blocked once, then stream 4.\<close>

definition busy :: "script quiche" where
  "busy = scripted\<lparr>q_h3_send_request := (\<lambda>h f q.
     case next_answer 4 (sc_response q) of (x, xs) \<Rightarrow> (x, q\<lparr>sc_response := xs\<rparr>))\<rparr>"

definition ex_request :: "script cst" where
  "ex_request = \<lparr>cn = script_conn False (idle\<lparr>sc_response := [- 13]\<rparr>), hs = script_host\<rparr>"

lemma ex_request_run:
  "\<exists>s'. SendRequest [id] 3 busy kept_memory (client_callbacks busy []) [('':method'', ''GET'')] [] 0 ex_request = Inr (4, s')"
  by (simp add: SendRequest.simps SendRequest_attempt_def ex_request_def busy_def h3_send_request_def call_defs script_defs
      SendBody_def FlushEgress_local_def FlushEgress_def FlushCachedResponses_def FlushTransfers_def TickTimeout_def
      numeral_3_eq_3 Let_def script_host_def sock_Allocate_def Allocate_def Allocate_seen_def new_qsocket_def
      new_send_allocator_def sock_Free_def Free_def)

theorem request_issued_once_witness:
  "\<exists>s'. SendRequest [id] 3 busy kept_memory (client_callbacks busy []) [('':method'', ''GET'')] [] 0 ex_request = Inr (4, s') \<and>
     (\<exists>blocked. requests (cn s') = map (\<lambda>r. ([('':method'', ''GET'')], True, r)) (blocked @ [4]) \<and> length blocked \<le> 1)"
proof -
  obtain s' where r: "SendRequest [id] 3 busy kept_memory (client_callbacks busy []) [('':method'', ''GET'')] [] 0 ex_request = Inr (4, s')"
    using ex_request_run ..
  have "requests (cn ex_request) = []" by (simp add: ex_request_def script_defs requests_def)
  with request_issued_once [OF r] r show ?thesis by (auto split: if_splits)
qed

end
