(* ===== verification/QS_Total.thy ===== *)
theory QS_Total
  imports QS_Lifecycle QS_ServerProps QS_ClientProps
begin

text \<open>
  Totality. \<open>settles f x\<close> says that enough fuel gives the result \<open>x\<close>. On a live connection
  (it has its \<open>quiche_conn\<close>, and nothing is queued before the HTTP/3 object exists) and with
  a library whose answers are bounded, the handler of a datagram, the timer handler and the
  pass of the sender's thread settle: no null pointer, no exception, no endless loop.
  \<open>total_owner\<close> adds to the owner's contract that its callbacks return.
\<close>

section \<open>Enough fuel\<close>

definition settles :: "(nat \<Rightarrow> 'a run) \<Rightarrow> 'a \<Rightarrow> bool" where
  "settles f x \<longleftrightarrow> (\<exists>N. \<forall>n \<ge> N. f n = Inr x)"

lemma settles_const [simp]: "settles (\<lambda>n. Inr x) x"
  by (simp add: settles_def)

lemma settles_now: "P x \<Longrightarrow> \<exists>y. settles (\<lambda>n. Inr x) y \<and> P y"
  by (intro exI [of _ x]) simp

lemma settles_bind:
  assumes "settles f x" and "settles (\<lambda>n. g n x) y"
  shows "settles (\<lambda>n. rbind (f n) (g n)) y"
proof -
  from assms obtain M N where "\<forall>n \<ge> M. f n = Inr x" "\<forall>n \<ge> N. g n x = Inr y"
    unfolding settles_def by blast
  then have "\<forall>n \<ge> max M N. rbind (f n) (g n) = Inr y" by simp
  then show ?thesis unfolding settles_def by blast
qed

lemma settles_Suc: "settles (\<lambda>n. f (Suc n)) x \<Longrightarrow> settles f x"
  unfolding settles_def by (metis Suc_le_D Suc_le_mono)

lemma settles_bind_Inr: "r = Inr x \<Longrightarrow> settles (\<lambda>n. g n x) y \<Longrightarrow> settles (\<lambda>n. rbind r (g n)) y"
  by simp

section \<open>A library with bounded answers\<close>

text \<open>\<open>m\<close> bounds the events and body pieces quiche still has to report.\<close>

definition event_bound :: "'q quiche \<Rightarrow> ('q \<Rightarrow> nat) \<Rightarrow> bool" where
  "event_bound Q m \<longleftrightarrow>
     (\<forall>q i ev q'. q_h3_poll Q q = ((i, ev), q') \<longrightarrow> i = q_err Q QUICHE_ERR_DONE \<or> i < 0 \<or> m q' < m q) \<and>
     (\<forall>sid q len d q'. q_h3_recv_body Q sid body_buf_size q = ((len, d), q') \<longrightarrow>
        m q' \<le> m q \<and> (len = q_err Q QUICHE_ERR_DONE \<or> len = 0 \<or> m q' < m q)) \<and>
     (\<forall>sid dir q. m (q_stream_shutdown Q sid dir q) \<le> m q) \<and>
     (\<forall>r q. m (q_close Q r q) \<le> m q) \<and> (\<forall>i q. m (snd (q_h3_send_goaway Q i q)) \<le> m q)"

definition readable :: "freed_memory \<Rightarrow> bool" where
  "readable F \<longleftrightarrow> (\<forall>h. \<exists>h'. freed_headers F h = Inr h')"

text \<open>\<open>bounded_by m q c\<close>: \<open>c\<close> has an object, and \<open>m\<close> is not larger for it than for \<open>q\<close>.\<close>

definition bounded_by :: "('q \<Rightarrow> nat) \<Rightarrow> 'q \<Rightarrow> 'q qconn \<Rightarrow> bool" where
  "bounded_by m q c \<longleftrightarrow> (\<exists>q'. conn c = Some q' \<and> m q' \<le> m q)"

definition live :: "'q qconn \<Rightarrow> bool" where
  "live c \<longleftrightarrow> conn c \<noteq> None \<and> (http3 c \<or> response_cache c = [] \<and> outgoing_streams_by_id c = [])"

locale total_owner = conn_owner cb for cb :: "'q callbacks" +
  fixes Q :: "'q quiche"
  assumes timeout_total: "\<exists>s'. on_timeout cb i s = Inr s'"
    and connect_total: "event_bound Q m \<Longrightarrow> conn (cn s) = Some q \<Longrightarrow>
      \<exists>s'. on_connect cb i p s = Inr s' \<and> bounded_by m q (cn s')"
    and data_total: "event_bound Q m \<Longrightarrow> conn (cn s) = Some q \<Longrightarrow> ev_Stream e \<noteq> None \<Longrightarrow>
      \<exists>s'. on_data cb e s = Inr s' \<and> bounded_by m q (cn s')"

lemma Close_total:
  assumes "event_bound Q m" and "conn c = Some q"
  shows "\<exists>c'. Close Q reason c = Inr c' \<and> bounded_by m q c'"
proof (cases "timed_out c \<or> \<not> http3 c")
  case True
  with assms show ?thesis
    by (auto simp: Close_def conn_close_def call_defs bounded_by_def event_bound_def)
next
  case False
  let ?g = "q_h3_send_goaway Q (highest_processed_stream_id c) q"
  have "m (snd ?g) \<le> m q" "m (q_close Q reason (snd ?g)) \<le> m (snd ?g)"
    using assms(1) by (simp_all add: event_bound_def)
  with False assms(2) show ?thesis
    by (cases "0 \<le> fst ?g")
       (auto simp: Close_def h3_send_goaway_def conn_close_def call_defs bounded_by_def intro: order_trans)
qed

lemma ComparePeerCertificate_total:
  assumes "event_bound Q m" and "conn c = Some q"
  shows "\<exists>ok c'. ComparePeerCertificate Q cert c = Inr (ok, c') \<and> bounded_by m q c'"
  using assms
  by (auto simp: ComparePeerCertificate_def conn_close_def call_defs bounded_by_def event_bound_def)

interpretation srvt: total_owner "server_callbacks Q authorization" Q for Q authorization
proof unfold_locales
  fix i p m q and e :: event and s :: "'a cst"
  show "\<exists>s'. on_timeout (server_callbacks Q authorization) i s = Inr s'"
    by (simp add: server_callbacks_def server_on_timeout_def)
  assume b: "event_bound Q m" and q: "conn (cn s) = Some q"
  show "\<exists>s'. on_connect (server_callbacks Q authorization) i p s = Inr s' \<and> bounded_by m q (cn s')"
    using q by (simp add: server_callbacks_def server_on_connect_def bounded_by_def)
  from Close_total [OF b q, of invalid_token_reason] obtain c where
    "Close Q invalid_token_reason (cn s) = Inr c" "bounded_by m q c" by blast
  moreover assume "ev_Stream e \<noteq> None"
  ultimately show "\<exists>s'. on_data (server_callbacks Q authorization) e s = Inr s' \<and> bounded_by m q (cn s')"
    using q by (auto simp: server_callbacks_def server_on_data_def MarkClientConnected_def bounded_by_def)
qed

interpretation clit: total_owner "client_callbacks Q cert_der" Q for Q cert_der
proof unfold_locales
  fix i p m q and e :: event and s :: "'a cst"
  show "\<exists>s'. on_timeout (client_callbacks Q cert_der) i s = Inr s'"
    by (simp add: client_callbacks_def client_on_timeout_def Let_def)
  assume b: "event_bound Q m" and q: "conn (cn s) = Some q"
  from ComparePeerCertificate_total [OF b q, of cert_der] obtain ok c where
    "ComparePeerCertificate Q cert_der (cn s) = Inr (ok, c)" "bounded_by m q c" by blast
  then show "\<exists>s'. on_connect (client_callbacks Q cert_der) i p s = Inr s' \<and> bounded_by m q (cn s')"
    by (cases ok) (simp_all add: client_callbacks_def client_on_connect_def Let_def)
  show "\<exists>s'. on_data (client_callbacks Q cert_der) e s = Inr s' \<and> bounded_by m q (cn s')"
    using q by (simp add: client_callbacks_def client_on_data_def bounded_by_def)
qed

section \<open>Flushing\<close>

text \<open>\<open>goes r\<close>: the call returned and the connection still has both objects.\<close>

definition goes :: "('a \<times> 'q qconn) run \<Rightarrow> bool" where
  "goes r \<longleftrightarrow> (\<exists>x c. r = Inr (x, c) \<and> conn c \<noteq> None \<and> http3 c)"

lemma goesI: "conn c \<noteq> None \<Longrightarrow> http3 c \<Longrightarrow> goes (Inr (x, c))"
  by (simp add: goes_def)

lemma goes_bind:
  assumes "goes r" and "\<And>x c. conn c \<noteq> None \<Longrightarrow> http3 c \<Longrightarrow> goes (f (x, c))"
  shows "goes (rbind r f)"
  using assms unfolding goes_def by fastforce

lemma goes_h3:
  assumes "conn c \<noteq> None" and "http3 c"
  shows "goes (h3_send_body Q sid data fin c)" and "goes (h3_send_response Q sid hdrs fin c)"
  using assms by (auto simp: goes_def h3_send_body_def h3_send_response_def call_defs)

lemma send_cached_body_goes:
  assumes "conn c \<noteq> None" and "http3 c"
  shows "goes (send_cached_body Q cr c)"
  unfolding send_cached_body_def Let_def
  by (auto split: option.split intro!: goes_bind goesI goes_h3 assms)

lemma flush_cached_one_goes:
  assumes "readable F" and "conn c \<noteq> None" and "http3 c"
  shows "goes (flush_cached_one Q F cr c)"
proof -
  from assms(1) obtain h where h: "freed_headers F (cr_headers cr) = Inr h" unfolding readable_def by blast
  have "goes (rbind (h3_send_response Q (cr_stream_id cr) h (cr_bytes_left cr \<le> 0) c) (\<lambda>(r, c).
     rbind (read_conn (q_is_established Q) c) (\<lambda>established.
       if r = H3_BLOCKED Q \<and> established then Inr (Some cr, c)
       else if r < 0 then Inr (None, c)
       else send_cached_body Q cr c)))"
    by (rule goes_bind [OF goes_h3(2) [OF assms(2,3)]])
       (auto simp: read_conn_def intro!: goesI send_cached_body_goes)
  with h show ?thesis by (simp add: flush_cached_one_def)
qed

lemma flush_cached_goes:
  "readable F \<Longrightarrow> conn c \<noteq> None \<Longrightarrow> http3 c \<Longrightarrow> goes (flush_cached Q F crs c)"
proof (induction crs arbitrary: c)
  case (Cons cr crs)
  show ?case
    unfolding flush_cached.simps
    by (rule goes_bind [OF flush_cached_one_goes [OF Cons.prems]])
       (auto intro!: goes_bind [OF Cons.IH [OF Cons.prems(1)]] goesI)
qed (auto intro: goesI)

lemma flush_stream_goes:
  assumes "conn c \<noteq> None" and "http3 c"
  shows "goes (flush_stream Q st c)"
  unfolding flush_stream_def Let_def
  by (auto intro!: goes_bind goesI goes_h3 assms)

lemma FlushCachedResponses_total:
  assumes "readable F" and "live c"
  shows "\<exists>c'. FlushCachedResponses Q F c = Inr c' \<and> live c'"
proof (cases "http3 c")
  case True
  with assms have "goes (flush_cached Q F (response_cache c) c)" by (intro flush_cached_goes) (simp_all add: live_def)
  then show ?thesis by (auto simp: FlushCachedResponses_def goes_def live_def)
next
  case False
  with assms show ?thesis by (simp add: FlushCachedResponses_def live_def)
qed

lemma flush_streams_total:
  "conn c \<noteq> None \<Longrightarrow> http3 c \<Longrightarrow> \<exists>m ids c'. flush_streams Q es c = Inr (m, ids, c') \<and> conn c' \<noteq> None \<and> http3 c'"
proof (induction es arbitrary: c)
  case (Cons e es)
  obtain k st where e: "e = (k, st)" by (cases e)
  from flush_stream_goes [OF Cons.prems] obtain brk completed st' c1 where
    f: "flush_stream Q st c = Inr ((brk, completed, st'), c1)" and c1: "conn c1 \<noteq> None" "http3 c1"
    unfolding goes_def by (metis surj_pair)
  with Cons.IH [OF c1] show ?case by (cases brk) (auto simp: e)
qed simp

lemma FlushTransfers_total:
  assumes "live c"
  shows "\<exists>c'. FlushTransfers Q c = Inr c' \<and> live c'"
proof (cases "http3 c")
  case True
  with assms flush_streams_total [of c Q "outgoing_streams_by_id c"] show ?thesis
    by (auto simp: FlushTransfers_def live_def)
next
  case False
  with assms show ?thesis by (simp add: FlushTransfers_def live_def)
qed

lemma egress_loop_settles:
  assumes "send_bound Q p" and "live (cn s)"
  shows "\<exists>x s'. settles (\<lambda>n. egress_loop n Q buffer sent s) (x, s') \<and> live (cn s')"
proof -
  from assms(2) obtain q where q: "conn (cn s) = Some q" by (auto simp: live_def)
  with assms(2) show ?thesis
  proof (induction "p q" arbitrary: s q buffer sent rule: less_induct)
    case less
    obtain written data to len q' where r: "q_conn_send Q MAX_DATAGRAM_SEND_SIZE q = ((written, data, to, len), q')"
      by (metis surj_pair)
    obtain b net1 where a: "(case buffer of Some b \<Rightarrow> (b, net (hs s)) | None \<Rightarrow> sock_Allocate (net (hs s))) = (b, net1)"
      by fastforce
    have c: "call_conn (q_conn_send Q MAX_DATAGRAM_SEND_SIZE) (cn s) = Inr ((written, data, to, len), (cn s)\<lparr>conn := Some q'\<rparr>)"
      using less.prems(2) r by (simp add: call_conn_def)
    show ?case
    proof (cases "written < 0 \<or> written = q_err Q QUICHE_ERR_DONE")
      case True
      let ?s = "s\<lparr>cn := (cn s)\<lparr>conn := Some q'\<rparr>, hs := (hs s)\<lparr>net := net1\<rparr>\<rparr>"
      have "settles (\<lambda>n. egress_loop (Suc n) Q buffer sent s) ((written = q_err Q QUICHE_ERR_DONE, sent, b), ?s)"
        using True a c by (cases "written = q_err Q QUICHE_ERR_DONE") (simp_all add: Let_def)
      moreover have "live (cn ?s)" using less.prems(1) by (simp add: live_def)
      ultimately show ?thesis using settles_Suc [where f = "\<lambda>n. egress_loop n Q buffer sent s"] by blast
    next
      case False
      with assms(1) r obtain ep where lt: "p q' < p q" and ep: "sockaddr_to_endpoint to len = Inr ep"
        unfolding send_bound_def by blast
      obtain b' net2 where a2: "sock_Allocate (Send b ep (fill_buffer b data written net1)) = (b', net2)" by fastforce
      let ?s = "s\<lparr>cn := (cn s)\<lparr>conn := Some q'\<rparr>, hs := (hs s)\<lparr>net := net2\<rparr>\<rparr>"
      have "live (cn ?s)" using less.prems(1) by (simp add: live_def)
      with less.hyps [OF lt, of ?s "Some b'" True] obtain x s' where
        "settles (\<lambda>n. egress_loop n Q (Some b') True ?s) (x, s')" "live (cn s')" by auto
      moreover have "egress_loop (Suc n) Q buffer sent s = egress_loop n Q (Some b') True ?s" for n
        using a c False ep a2 by (simp add: Let_def)
      ultimately have "settles (\<lambda>n. egress_loop (Suc n) Q buffer sent s) (x, s')" by simp
      with \<open>live (cn s')\<close> show ?thesis using settles_Suc [where f = "\<lambda>n. egress_loop n Q buffer sent s"] by blast
    qed
  qed
qed

context total_owner
begin

lemma live_cong: "conn c' \<noteq> None \<Longrightarrow> http3 c' = http3 c \<Longrightarrow> response_cache c' = response_cache c \<Longrightarrow>
    outgoing_streams_by_id c' = outgoing_streams_by_id c \<Longrightarrow> live c \<Longrightarrow> live c'"
  by (simp add: live_def)

lemma timeout_live: "on_timeout cb i s = Inr s' \<Longrightarrow> live (cn s) \<Longrightarrow> live ((cn s')\<lparr>timed_out := True\<rparr>)"
  using timeout_cb_conn by (simp add: live_def)

lemma TickTimeout_total:
  assumes "live (cn s)"
  shows "\<exists>s'. TickTimeout Q cb s = Inr s' \<and> live (cn s')"
proof -
  obtain q where q: "conn (cn s) = Some q" using assms by (auto simp: live_def)
  obtain s1 where t: "on_timeout cb (AssignedId (cn s)) s = Inr s1" using timeout_total by blast
  from timeout_live [OF t assms] q t assms show ?thesis
    by (auto simp: TickTimeout_def call_defs live_def)
qed

lemma FlushEgress_settles:
  assumes "send_bound Q p" and "readable F" and "live (cn s)"
  shows "\<exists>sent b s'. settles (\<lambda>n. FlushEgress n Q F cb buffer s) ((sent, b), s') \<and> live (cn s')"
proof -
  from FlushCachedResponses_total [OF assms(2,3)] obtain c1 where 1: "FlushCachedResponses Q F (cn s) = Inr c1" "live c1" by blast
  from FlushTransfers_total [OF 1(2)] obtain c2 where 2: "FlushTransfers Q c1 = Inr c2" "live c2" by blast
  from egress_loop_settles [OF assms(1), of "s\<lparr>cn := c2\<rparr>" buffer False] 2(2) obtain finished sent b s3 where
    3: "settles (\<lambda>n. egress_loop n Q buffer False (s\<lparr>cn := c2\<rparr>)) ((finished, sent, b), s3)" "live (cn s3)" by auto
  from TickTimeout_total [OF 3(2)] obtain s4 where 4: "TickTimeout Q cb s3 = Inr s4" "live (cn s4)" by blast
  let ?s = "if finished then s4 else s3"
  have "settles (\<lambda>n. if finished then rbind (TickTimeout Q cb s3) (\<lambda>s. Inr ((sent, b), s)) else Inr ((sent, b), s3)) ((sent, b), ?s)"
    using 4(1) by simp
  then have "settles (\<lambda>n. FlushEgress n Q F cb buffer s) ((sent, b), ?s)"
    unfolding FlushEgress_def using 1(1) 2(1) by (simp add: settles_bind [OF 3(1)])
  moreover have "live (cn ?s)" using 3(2) 4(2) by simp
  ultimately show ?thesis by blast
qed

lemma FlushEgress_local_settles:
  assumes "send_bound Q p" and "readable F" and "live (cn s)"
  shows "\<exists>sent s'. settles (\<lambda>n. FlushEgress_local n Q F cb s) (sent, s') \<and> live (cn s')"
proof -
  from FlushEgress_settles [OF assms] obtain sent b s1 where
    1: "settles (\<lambda>n. FlushEgress n Q F cb None s) ((sent, b), s1)" "live (cn s1)" by blast
  have "settles (\<lambda>n. FlushEgress_local n Q F cb s) (sent, s1\<lparr>hs := (hs s1)\<lparr>net := sock_Free b (net (hs s1))\<rparr>\<rparr>)"
    unfolding FlushEgress_local_def by (rule settles_bind [OF 1(1)]) simp
  with 1(2) show ?thesis by force
qed

lemma OnQuicheTimer_settles:
  assumes "send_bound Q p" and "readable F" and "live (cn s)"
  shows "\<exists>s'. settles (\<lambda>n. OnQuicheTimer n Q F cb ec s) s' \<and> live (cn s')"
proof -
  obtain q where q: "conn (cn s) = Some q" using assms(3) by (auto simp: live_def)
  let ?s = "s\<lparr>cn := (cn s)\<lparr>timer_set := False\<rparr>\<rparr>" and ?c = "(cn s)\<lparr>timer_set := False, conn := Some (q_on_timeout Q q)\<rparr>"
  have l: "live (cn ?s)" "live ?c" using assms(3) by (simp_all add: live_def)
  from FlushEgress_local_settles [OF assms(1,2), of "s\<lparr>cn := ?c\<rparr>"] l(2) obtain sent s1 where
    1: "settles (\<lambda>n. FlushEgress_local n Q F cb (s\<lparr>cn := ?c\<rparr>)) (sent, s1)" "live (cn s1)" by auto
  show ?thesis
  proof (cases "ec \<or> timed_out (cn s)")
    case True
    with l(1) show ?thesis by (intro exI [of _ ?s]) (auto simp: OnQuicheTimer_def)
  next
    case False
    with q have "settles (\<lambda>n. OnQuicheTimer n Q F cb ec s) s1"
      unfolding OnQuicheTimer_def by (auto simp: call_conn_def intro: settles_bind [OF 1(1)])
    with 1(2) show ?thesis by blast
  qed
qed

end

section \<open>Events and datagrams\<close>

lemma bounded_by_trans: "bounded_by m q c \<Longrightarrow> conn c = Some q1 \<Longrightarrow> bounded_by m q1 c' \<Longrightarrow> bounded_by m q c'"
  by (auto simp: bounded_by_def)

lemma recv_body_loop_settles:
  assumes "event_bound Q m"
  shows "conn c = Some q \<Longrightarrow> http3 c \<Longrightarrow>
    \<exists>st' c'. settles (\<lambda>n. recv_body_loop n Q sid st c) (st', c') \<and> bounded_by m q c' \<and> http3 c'"
proof (induction "m q" arbitrary: c q st rule: less_induct)
  case less
  obtain len data q' where r: "q_h3_recv_body Q sid body_buf_size q = ((len, data), q')" by (metis surj_pair)
  let ?c = "c\<lparr>conn := Some q', calls := calls c @ [CallRecv sid len data]\<rparr>"
  have h: "h3_recv_body Q sid body_buf_size c = Inr ((len, data), ?c)"
    using less.prems r by (simp add: h3_recv_body_def call_defs)
  have bound: "m q' \<le> m q \<and> (len = q_err Q QUICHE_ERR_DONE \<or> len = 0 \<or> m q' < m q)"
    using assms r unfolding event_bound_def by blast
  then have le: "m q' \<le> m q" by simp
  show ?case
  proof (cases "len = q_err Q QUICHE_ERR_DONE \<or> len = 0")
    case True
    then have "settles (\<lambda>n. recv_body_loop (Suc n) Q sid st c) (st, ?c)" using h by auto
    with settles_Suc [where f = "\<lambda>n. recv_body_loop n Q sid st c"] le less.prems(2) show ?thesis
      by (intro exI [of _ st] exI [of _ ?c]) (auto simp: bounded_by_def)
  next
    case False
    let ?st = "if len > 0 then OnData (take (nat len) data) st else st"
    have lt: "m q' < m q" using False bound by simp
    have step: "recv_body_loop (Suc n) Q sid st c = recv_body_loop n Q sid ?st ?c" for n
      using h False by simp
    from less.hyps [OF lt, of ?c ?st] less.prems(2) obtain st' c' where
      rest: "settles (\<lambda>n. recv_body_loop n Q sid ?st ?c) (st', c')" "bounded_by m q' c'" "http3 c'" by auto
    have "settles (\<lambda>n. recv_body_loop n Q sid st c) (st', c')"
      by (rule settles_Suc) (simp only: step rest(1))
    moreover have "bounded_by m q c'" using rest(2) le by (auto simp: bounded_by_def)
    ultimately show ?thesis using rest(3) by blast
  qed
qed

lemma DestroyStream_total:
  assumes "event_bound Q m" and "conn c = Some q"
  shows "\<exists>c'. DestroyStream Q sid c = Inr c' \<and> bounded_by m q c' \<and> http3 c' = http3 c"
proof -
  have "m (q_stream_shutdown Q sid ShutdownWrite (q_stream_shutdown Q sid ShutdownRead q)) \<le> m q"
    using assms(1) by (meson event_bound_def order_trans)
  with assms(2) show ?thesis by (simp add: DestroyStream_def stream_shutdown_def call_defs bounded_by_def)
qed

context total_owner
begin

lemma handle_event_settles:
  assumes b: "event_bound Q m" and q: "conn (cn s) = Some q" and h: "http3 (cn s)"
  shows "\<exists>s'. settles (\<lambda>n. handle_event n Q cb sid ev s) s' \<and> bounded_by m q (cn s') \<and> http3 (cn s')"
proof (cases ev)
  case (EvHeaders hdrs)
  obtain st c1 where g: "GetIncomingStream sid True (cn s) = (Some st, c1)"
    using GetIncomingStream_Some by (metis surj_pair)
  let ?s = "s\<lparr>cn := put_incoming sid (fold (\<lambda>(k, v). OnHeader k v) hdrs st) c1\<rparr>"
  have "settles (\<lambda>n. handle_event n Q cb sid ev s) ?s" using EvHeaders g by simp
  moreover have "bounded_by m q (cn ?s) \<and> http3 (cn ?s)"
    using GetIncomingStream_rx(3) [OF g] q h by (auto simp: bounded_by_def put_incoming_def)
  ultimately show ?thesis by blast
next
  case EvData
  obtain st c1 where g: "GetIncomingStream sid True (cn s) = (Some st, c1)"
    using GetIncomingStream_Some by (metis surj_pair)
  with GetIncomingStream_rx(3) [OF g] q h have "conn c1 = Some q" "http3 c1" by auto
  from recv_body_loop_settles [OF b this] obtain st' c' where
    r: "settles (\<lambda>n. recv_body_loop n Q sid st c1) (st', c')" "bounded_by m q c'" "http3 c'" by blast
  have "settles (\<lambda>n. handle_event n Q cb sid EvData s) (s\<lparr>cn := put_incoming sid st' c'\<rparr>)"
    using g by (simp add: settles_bind [OF r(1)])
  with EvData r(2,3) show ?thesis by (auto simp: bounded_by_def put_incoming_def)
next
  case EvFinished
  show ?thesis
  proof (cases "um_find sid (incoming_streams_by_id (cn s))")
    case None
    with EvFinished q h show ?thesis by (intro exI [of _ s]) (auto simp: bounded_by_def)
  next
    case (Some stream)
    let ?c = "(cn s)\<lparr>incoming_streams_by_id := um_erase sid (incoming_streams_by_id (cn s))\<rparr>"
    let ?e = "\<lparr>ev_Type = DataEvent, ev_PeerEndpoint = peer_endpoint ?c,
                       ev_ConnectionAssignedId = AssignedId ?c, ev_Stream = Some stream\<rparr>"
    from data_total [OF b, of "s\<lparr>cn := ?c\<rparr>" q ?e] q obtain s1 where
      d: "on_data cb ?e (s\<lparr>cn := ?c\<rparr>) = Inr s1" "bounded_by m q (cn s1)" by auto
    have "quiet ?c (cn s1)" using data_cb [OF d(1)] by simp
    then have h1: "http3 (cn s1)" using h by (simp add: quiet_frame(8))
    from d(2) obtain q1 where q1: "conn (cn s1) = Some q1" by (auto simp: bounded_by_def)
    from DestroyStream_total [OF b q1, of sid] obtain c2 where
      ds: "DestroyStream Q sid (cn s1) = Inr c2" "bounded_by m q1 c2" "http3 c2 = http3 (cn s1)" by blast
    have "handle_event n Q cb sid ev s = (if \<not> IsServer (cn s1) then Inr (s1\<lparr>cn := c2\<rparr>) else Inr s1)" for n
      using EvFinished Some d(1) ds(1) by (simp add: Let_def)
    then show ?thesis
      using d(2) ds(2,3) h1 bounded_by_trans [OF d(2) q1 ds(2)]
      by (cases "IsServer (cn s1)") (simp_all add: settles_now)
  qed
next
  case EvReset
  from DestroyStream_total [OF b q, of sid] h obtain c' where
    "DestroyStream Q sid (cn s) = Inr c'" "bounded_by m q c'" "http3 c'" by auto
  with EvReset show ?thesis by (simp add: settles_now)
next
  case EvGoAway
  with b q h show ?thesis by (simp add: settles_now conn_close_def call_defs bounded_by_def event_bound_def)
qed (use q h in \<open>simp_all add: settles_now bounded_by_def\<close>)

lemma ProcessH3Events_settles:
  assumes b: "event_bound Q m"
  shows "conn (cn s) = Some q \<Longrightarrow> http3 (cn s) \<Longrightarrow>
    \<exists>s'. settles (\<lambda>n. ProcessH3Events n Q cb s) s' \<and> live (cn s')"
proof (induction "m q" arbitrary: s q rule: less_induct)
  case less
  obtain i ev q1 where p: "q_h3_poll Q q = ((i, ev), q1)" by (metis surj_pair)
  let ?s = "s\<lparr>cn := (cn s)\<lparr>conn := Some q1\<rparr>\<rparr>"
  have c: "call_h3 (q_h3_poll Q) (cn s) = Inr ((i, ev), (cn s)\<lparr>conn := Some q1\<rparr>)"
    using less.prems p by (simp add: call_defs)
  note up = settles_Suc [where f = "\<lambda>n. ProcessH3Events n Q cb s"]
  show ?case
  proof (cases "i = q_err Q QUICHE_ERR_DONE \<or> i < 0")
    case True
    then have "settles (\<lambda>n. ProcessH3Events (Suc n) Q cb s) ?s" using c by (auto simp: Let_def)
    with up less.prems(2) show ?thesis by (intro exI [of _ ?s]) (auto simp: live_def)
  next
    case False
    have lt: "m q1 < m q" using False b p by (auto simp: event_bound_def)
    from handle_event_settles [OF b, of ?s q1 "word_of_int i" ev] less.prems(2) obtain s2 where
      e: "settles (\<lambda>n. handle_event n Q cb (word_of_int i) ev ?s) s2" "bounded_by m q1 (cn s2)" "http3 (cn s2)" by auto
    from e(2) obtain q2 where q2: "conn (cn s2) = Some q2" "m q2 < m q" using lt by (auto simp: bounded_by_def)
    from less.hyps [OF q2(2) q2(1) e(3)] obtain s3 where
      3: "settles (\<lambda>n. ProcessH3Events n Q cb s2) s3" "live (cn s3)" by blast
    have "ProcessH3Events (Suc n) Q cb s = rbind (handle_event n Q cb (word_of_int i) ev ?s) (ProcessH3Events n Q cb)" for n
      using c False by (simp add: Let_def)
    then have "settles (\<lambda>n. ProcessH3Events (Suc n) Q cb s) s3"
      using settles_bind [OF e(1), of "\<lambda>n. ProcessH3Events n Q cb"] 3(1) by simp
    with up 3(2) show ?thesis by blast
  qed
qed

lemma datagram_established_settles:
  assumes b: "event_bound Q m" and l: "live (cn s)"
  shows "\<exists>go s'. settles (\<lambda>n. datagram_established n Q cb s) (go, s') \<and> live (cn s')"
proof -
  obtain q where q: "conn (cn s) = Some q" using l by (auto simp: live_def)
  show ?thesis
  proof (cases "http3 (cn s)")
    case True
    from ProcessH3Events_settles [OF b q True] obtain s' where
      p: "settles (\<lambda>n. ProcessH3Events n Q cb s) s'" "live (cn s')" by blast
    have "settles (\<lambda>n. datagram_established n Q cb s) (True, s')"
      using True by (simp add: datagram_established_def settles_bind [OF p(1)])
    with p(2) show ?thesis by blast
  next
    case False
    obtain ok q1 where n: "q_h3_conn_new Q q = (ok, q1)" by fastforce
    let ?c = "(cn s)\<lparr>conn := Some q1\<rparr>"
    have c: "call_conn (q_h3_conn_new Q) (cn s) = Inr (ok, ?c)" using q n by (simp add: call_conn_def)
    show ?thesis
    proof (cases ok)
      case False
      then have "settles (\<lambda>n. datagram_established n Q cb s) (False, s\<lparr>cn := ?c\<rparr>)"
        using \<open>\<not> http3 (cn s)\<close> c by (simp add: datagram_established_def)
      moreover have "live (cn (s\<lparr>cn := ?c\<rparr>))" using l by (simp add: live_def)
      ultimately show ?thesis by blast
    next
      case True
      let ?s = "s\<lparr>cn := ?c\<lparr>http3 := True\<rparr>\<rparr>"
      from connect_total [OF b, of ?s q1 "AssignedId ?c" "peer_endpoint ?c"] obtain s1 where
        o: "on_connect cb (AssignedId ?c) (peer_endpoint ?c) ?s = Inr s1" "bounded_by m q1 (cn s1)" by auto
      have "http3 (cn s1)" using connect_cb [OF o(1)] quiet_frame(8) [of "cn ?s" "cn s1"] by simp
      moreover from o(2) obtain q2 where "conn (cn s1) = Some q2" by (auto simp: bounded_by_def)
      ultimately obtain s' where p: "settles (\<lambda>n. ProcessH3Events n Q cb s1) s'" "live (cn s')"
        using ProcessH3Events_settles [OF b] by blast
      have "datagram_established n Q cb s = rbind (ProcessH3Events n Q cb s1) (\<lambda>s. Inr (True, s))" for n
        using \<open>\<not> http3 (cn s)\<close> True c o(1) by (simp add: datagram_established_def)
      then have "settles (\<lambda>n. datagram_established n Q cb s) (True, s')" by (simp add: settles_bind [OF p(1)])
      with p(2) show ?thesis by blast
    qed
  qed
qed

lemma datagram_end_settles:
  assumes "send_bound Q p" and "readable F" and "live (cn s)"
  shows "\<exists>s'. settles (\<lambda>n. datagram_end n Q F cb s) s' \<and> live (cn s')"
proof -
  obtain q where q: "conn (cn s) = Some q" using assms(3) by (auto simp: live_def)
  show ?thesis
  proof (cases "\<not> timed_out (cn s) \<and> q_is_closed Q q")
    case True
    obtain s1 where t: "on_timeout cb (AssignedId (cn s)) s = Inr s1" using timeout_total by blast
    have "settles (\<lambda>n. datagram_end n Q F cb s) (s1\<lparr>cn := (cn s1)\<lparr>timed_out := True\<rparr>\<rparr>)"
      using True q t by (simp add: datagram_end_def read_conn_def)
    with timeout_live [OF t assms(3)] show ?thesis by force
  next
    case False
    from FlushEgress_local_settles [OF assms] obtain sent s' where
      f: "settles (\<lambda>n. FlushEgress_local n Q F cb s) (sent, s')" "live (cn s')" by blast
    have "datagram_end n Q F cb s = rbind (FlushEgress_local n Q F cb s) (\<lambda>(_, s). Inr s)" for n
      using False q by (auto simp: datagram_end_def read_conn_def)
    then have "settles (\<lambda>n. datagram_end n Q F cb s) s'" by (simp add: settles_bind [OF f(1)])
    with f(2) show ?thesis by blast
  qed
qed

lemma OnDatagram_settles:
  assumes "event_bound Q m" and "send_bound Q p" and "readable F" and "live (cn s)"
  shows "\<exists>s'. settles (\<lambda>n. OnDatagram n Q F cb data peer s) s' \<and> live (cn s')"
proof -
  obtain q where q: "conn (cn s) = Some q" using assms(4) by (auto simp: live_def)
  obtain rc q1 where r: "q_conn_recv Q data (to_sockaddr peer) (to_sockaddr (local_endpoint (hs s))) q = (rc, q1)" by fastforce
  let ?s = "s\<lparr>cn := (cn s)\<lparr>peer_endpoint := peer, conn := Some q1\<rparr>\<rparr>"
  have l: "live (cn ?s)" using assms(4) by (simp add: live_def)
  have "\<exists>go s'. settles (\<lambda>n. if q_is_established Q q1 then datagram_established n Q cb ?s else Inr (True, ?s)) (go, s') \<and> live (cn s')"
    using datagram_established_settles [OF assms(1) l] l
    by (cases "q_is_established Q q1") (simp_all add: exI [of _ ?s] exI [of _ True])
  then obtain go s2 where
    d: "settles (\<lambda>n. if q_is_established Q q1 then datagram_established n Q cb ?s else Inr (True, ?s)) (go, s2)"
    and l2: "live (cn s2)" by blast
  have "\<exists>s'. settles (\<lambda>n. if go then datagram_end n Q F cb s2 else Inr s2) s' \<and> live (cn s')"
    using datagram_end_settles [OF assms(2,3) l2] l2 by (cases go) (simp_all add: settles_now)
  then obtain s3 where e: "settles (\<lambda>n. if go then datagram_end n Q F cb s2 else Inr s2) s3" and l3: "live (cn s3)" by blast
  show ?thesis
  proof (cases "rc < 0")
    case True
    then have "OnDatagram n Q F cb data peer s = Inr ?s" for n
      using q r by (simp add: OnDatagram_def Let_def call_conn_def)
    with l show ?thesis by (auto intro: settles_now)
  next
    case False
    then have "OnDatagram n Q F cb data peer s =
        rbind (if q_is_established Q q1 then datagram_established n Q cb ?s else Inr (True, ?s))
          (\<lambda>(continue, s). if continue then datagram_end n Q F cb s else Inr s)" for n
      using q r by (simp add: OnDatagram_def Let_def call_conn_def read_conn_def)
    moreover have "settles (\<lambda>n. rbind (if q_is_established Q q1 then datagram_established n Q cb ?s else Inr (True, ?s))
          (\<lambda>(continue, s). if continue then datagram_end n Q F cb s else Inr s)) s3"
      using settles_bind [OF d, of "\<lambda>n (continue, s). if continue then datagram_end n Q F cb s else Inr s" s3] e by simp
    ultimately show ?thesis using l3 by auto
  qed
qed

end

end
