(* ===== verification/QS_ServerTotal.thy ===== *)
theory QS_ServerTotal
  imports QS_Total
begin

text \<open>
  A server that is never stuck. \<open>fuel_free\<close> says that more fuel does not change a result, so a
  run that returned with some fuel returned what \<open>settles\<close> gives. With it the objects of
  every reachable server are live, and every handler returns on them.
\<close>

section \<open>The result does not depend on the fuel\<close>

named_theorems fuel_intros

definition fuel_free :: "(nat \<Rightarrow> 'a run) \<Rightarrow> bool" where
  "fuel_free f \<longleftrightarrow> (\<forall>n x. f n = Inr x \<longrightarrow> f (Suc n) = Inr x)"

lemma fuel_freeI: "(\<And>n x. f n = Inr x \<Longrightarrow> f (Suc n) = Inr x) \<Longrightarrow> fuel_free f"
  by (simp add: fuel_free_def)

lemma fuel_free_more:
  assumes "fuel_free f" and "f n = Inr x" and "n \<le> k"
  shows "f k = Inr x"
  using assms(3,1,2) by (induction k rule: dec_induct) (simp_all add: fuel_free_def)

lemma settled_result:
  assumes "fuel_free f" and "settles f x" and "f n = Inr y"
  shows "y = x"
proof -
  from assms(2) obtain N where "\<forall>k \<ge> N. f k = Inr x" unfolding settles_def ..
  then have "f (max n N) = Inr x" by simp
  with fuel_free_more [OF assms(1,3), of "max n N"] show ?thesis by simp
qed

lemma fuel_free_const [fuel_intros]: "fuel_free (\<lambda>n. r)"
  by (simp add: fuel_free_def)

lemma fuel_free_bind [fuel_intros]:
  assumes "fuel_free f" and "\<And>x. fuel_free (\<lambda>n. g n x)"
  shows "fuel_free (\<lambda>n. rbind (f n) (g n))"
  using assms unfolding fuel_free_def by (auto elim!: rbindE)

lemma fuel_free_if [fuel_intros]: "fuel_free f \<Longrightarrow> fuel_free g \<Longrightarrow> fuel_free (\<lambda>n. if b then f n else g n)"
  by (cases b) simp_all

lemma fuel_free_prod [fuel_intros]: "(\<And>x y. fuel_free (\<lambda>n. g n x y)) \<Longrightarrow> fuel_free (\<lambda>n. case p of (x, y) \<Rightarrow> g n x y)"
  by (cases p) simp

lemma fuel_free_prod_app [fuel_intros]:
  "(\<And>x y. fuel_free (\<lambda>n. g n x y z)) \<Longrightarrow> fuel_free (\<lambda>n. (case p of (x, y) \<Rightarrow> g n x y) z)"
  by (cases p) simp

lemma fuel_free_option [fuel_intros]:
  "fuel_free f \<Longrightarrow> (\<And>x. fuel_free (\<lambda>n. g n x)) \<Longrightarrow> fuel_free (\<lambda>n. case p of None \<Rightarrow> f n | Some x \<Rightarrow> g n x)"
  by (cases p) simp_all

lemma recv_body_loop_fuel_free [fuel_intros]: "fuel_free (\<lambda>n. recv_body_loop n Q sid st c)"
proof (rule fuel_freeI)
  fix n x
  show "recv_body_loop n Q sid st c = Inr x \<Longrightarrow> recv_body_loop (Suc n) Q sid st c = Inr x"
    by (induction n arbitrary: st c) (auto elim!: rbindE split: if_splits)
qed

lemma egress_loop_fuel_free [fuel_intros]: "fuel_free (\<lambda>n. egress_loop n Q buffer sent s)"
proof (rule fuel_freeI)
  fix n x
  show "egress_loop n Q buffer sent s = Inr x \<Longrightarrow> egress_loop (Suc n) Q buffer sent s = Inr x"
  proof (induction n arbitrary: buffer sent s)
    case (Suc n)
    from Suc.prems show ?case
      by (subst egress_loop.simps(2)) (auto simp: Let_def elim!: rbindE split: if_splits prod.splits dest!: Suc.IH)
  qed simp
qed

lemma handle_event_fuel_free [fuel_intros]: "fuel_free (\<lambda>n. handle_event n Q cb sid ev s)"
  by (cases ev) (simp_all add: Let_def fuel_intros split: option.split)

lemma ProcessH3Events_fuel_free [fuel_intros]: "fuel_free (\<lambda>n. ProcessH3Events n Q cb s)"
proof (rule fuel_freeI)
  fix n x
  show "ProcessH3Events n Q cb s = Inr x \<Longrightarrow> ProcessH3Events (Suc n) Q cb s = Inr x"
  proof (induction n arbitrary: s)
    case (Suc n)
    have h: "handle_event n Q cb i ev t = Inr y \<Longrightarrow> handle_event (Suc n) Q cb i ev t = Inr y" for i ev t y
      using handle_event_fuel_free unfolding fuel_free_def by blast
    from Suc.prems show ?case
      by (subst ProcessH3Events.simps(2)) (auto simp: Let_def elim!: rbindE split: if_splits dest!: h Suc.IH)
  qed simp
qed

lemma FlushEgress_fuel_free [fuel_intros]: "fuel_free (\<lambda>n. FlushEgress n Q F cb buffer s)"
  unfolding FlushEgress_def by (intro fuel_intros)

lemma FlushEgress_local_fuel_free [fuel_intros]: "fuel_free (\<lambda>n. FlushEgress_local n Q F cb s)"
  unfolding FlushEgress_local_def by (intro fuel_intros)

lemma handlers_fuel_free [fuel_intros]:
  "fuel_free (\<lambda>n. OnQuicheTimer n Q F cb ec s)"
  "fuel_free (\<lambda>n. OnDatagram n Q F cb data peer s)"
  "fuel_free (\<lambda>n. SendBody n Q F cb sid vdata bytes s)"
  unfolding OnQuicheTimer_def OnDatagram_def SendBody_def datagram_established_def datagram_end_def Let_def
  by (intro fuel_intros)+

lemma SendResponse_fuel_free [fuel_intros]: "fuel_free (\<lambda>n. SendResponse n Q F cb sid headers vdata bytes s)"
  unfolding SendResponse_def by (intro fuel_intros)

lemma sweep_fuel_free [fuel_intros]: "fuel_free (\<lambda>n. sweep n Q F cb es buffer r h)"
proof (induction es arbitrary: buffer r h)
  case (Cons e es)
  then show ?case by (cases e) (simp, intro fuel_intros Cons.IH)
qed (simp add: fuel_free_const)


section \<open>Sending and sweeping return\<close>

lemma settles_now2: "P y \<Longrightarrow> \<exists>a b. settles (\<lambda>n. Inr (x, y)) (a, b) \<and> P b"
  by (intro exI [of _ x] exI [of _ y]) simp

lemma settles_if:
  "\<exists>b. settles f b \<and> P b \<Longrightarrow> \<exists>b. settles g b \<and> P b \<Longrightarrow>
   \<exists>b. settles (\<lambda>n. if c then f n else g n) b \<and> P b"
  by (cases c) simp_all

lemma settles_if2:
  "\<exists>a b. settles f (a, b) \<and> P b \<Longrightarrow> \<exists>a b. settles g (a, b) \<and> P b \<Longrightarrow>
   \<exists>a b. settles (\<lambda>n. if c then f n else g n) (a, b) \<and> P b"
  by (cases c) simp_all

definition reg_live :: "'q registry \<Rightarrow> bool" where
  "reg_live r \<longleftrightarrow> (\<forall>ref c. objects r ref = Some c \<longrightarrow> live c)"

lemma reg_live_set_object: "reg_live r \<Longrightarrow> live c \<Longrightarrow> reg_live (set_object ref c r)"
  by (simp add: reg_live_def set_object_def)

lemma live_queue_body: "live c \<Longrightarrow> http3 c \<Longrightarrow> live (queue_body sid rest c)"
  by (simp add: live_def queue_body_def GetOutgoingStream_def split: option.split)

lemma h3_call_total:
  assumes "live c" and "http3 c"
  shows "\<exists>r c'. h3_send_body Q sid data fin c = Inr (r, c') \<and> live c' \<and> http3 c'"
    and "\<exists>r c'. h3_send_response Q sid hdrs fin c = Inr (r, c') \<and> live c' \<and> http3 c' \<and> conn c' \<noteq> None"
  using goes_h3 [of c] assms by (fastforce simp: goes_def live_def)+

context total_owner
begin

lemma flush_settles:
  assumes "send_bound Q p" and "readable F" and "live (cn s)"
  shows "\<exists>ok s'. settles (\<lambda>n. rbind (FlushEgress_local n Q F cb s) (\<lambda>(_, s). Inr (True, s))) (ok, s') \<and> live (cn s')"
proof -
  from FlushEgress_local_settles [OF assms] obtain sent s' where
    f: "settles (\<lambda>n. FlushEgress_local n Q F cb s) (sent, s')" "live (cn s')" by blast
  have "settles (\<lambda>n. rbind (FlushEgress_local n Q F cb s) (\<lambda>(_, s). Inr (True, s))) (True, s')"
    by (rule settles_bind [OF f(1)]) simp
  with f(2) show ?thesis by blast
qed

lemma SendBody_settles:
  assumes "send_bound Q p" and "readable F" and "live (cn s)" and "0 < bytes \<Longrightarrow> http3 (cn s)"
  shows "\<exists>ok s'. settles (\<lambda>n. SendBody n Q F cb sid vdata bytes s) (ok, s') \<and> live (cn s')"
proof (cases "bytes \<le> 0")
  case True
  with flush_settles [OF assms(1-3)] show ?thesis by (simp add: SendBody_def)
next
  case False
  with h3_call_total(1) [OF assms(3)] assms(4) obtain r c where
    1: "h3_send_body Q sid (take (nat bytes) vdata) False (cn s) = Inr (r, c)" "live c" "http3 c" by force
  from h3_call_total(1) [OF 1(2,3)] obtain r2 c2 where 2: "h3_send_body Q sid [] True c = Inr (r2, c2)" "live c2" by blast
  let ?r = "if r < 0 then 0 else r"
  let ?q = "queue_body sid (drop (nat ?r) (take (nat bytes) vdata)) c"
  note flush = flush_settles [OF assms(1,2)]
  consider "?r < bytes" | "\<not> ?r < bytes" "r2 < 0" | "\<not> ?r < bytes" "\<not> r2 < 0" by blast
  then show ?thesis
  proof cases
    case 1
    have "SendBody n Q F cb sid vdata bytes s =
        rbind (FlushEgress_local n Q F cb (s\<lparr>cn := ?q\<rparr>)) (\<lambda>(_, s). Inr (True, s))" for n
      using False 1 \<open>h3_send_body Q sid _ False (cn s) = _\<close> by (simp add: SendBody_def Let_def)
    with flush [of "s\<lparr>cn := ?q\<rparr>"] live_queue_body [OF \<open>live c\<close> \<open>http3 c\<close>] show ?thesis by simp
  next
    case 2
    have "SendBody n Q F cb sid vdata bytes s = Inr (False, s\<lparr>cn := c2\<rparr>)" for n
      using False 2 \<open>h3_send_body Q sid _ False (cn s) = _\<close> \<open>h3_send_body Q sid [] True c = _\<close>
      by (simp add: SendBody_def Let_def)
    with \<open>live c2\<close> show ?thesis by (simp add: settles_now2)
  next
    case 3
    have "SendBody n Q F cb sid vdata bytes s =
        rbind (FlushEgress_local n Q F cb (s\<lparr>cn := c2\<rparr>)) (\<lambda>(_, s). Inr (True, s))" for n
      using False 3 \<open>h3_send_body Q sid _ False (cn s) = _\<close> \<open>h3_send_body Q sid [] True c = _\<close>
      by (simp add: SendBody_def Let_def)
    with flush [of "s\<lparr>cn := c2\<rparr>"] \<open>live c2\<close> show ?thesis by simp
  qed
qed

lemma SendResponse_settles:
  assumes "send_bound Q p" and "readable F" and "live (cn s)" and "timed_out (cn s) \<or> http3 (cn s)"
    and "bytes \<le> 0 \<or> vdata \<noteq> None"
  shows "\<exists>ok s'. settles (\<lambda>n. SendResponse n Q F cb sid headers vdata bytes s) (ok, s') \<and> live (cn s')"
proof (cases "timed_out (cn s)")
  case True
  with assms(3) show ?thesis by (simp add: SendResponse_def settles_now2)
next
  case False
  with h3_call_total(2) [OF assms(3)] assms(4) obtain r c q where
    1: "h3_send_response Q sid headers (bytes \<le> 0) (cn s) = Inr (r, c)" "live c" "http3 c" "conn c = Some q" by force
  let ?d = "case vdata of None \<Rightarrow> [] | Some d \<Rightarrow> d"
  let ?c = "c\<lparr>response_cache := response_cache c @
              [\<lparr>cr_stream_id = sid, cr_headers = headers,
                cr_data = (if bytes > 0 then map_option (take (nat bytes)) vdata else None),
                cr_bytes_left = bytes\<rparr>]\<rparr>"
  have eq: "SendResponse n Q F cb sid headers vdata bytes s =
      (if r = H3_BLOCKED Q \<and> q_is_established Q q then Inr (False, s\<lparr>cn := ?c\<rparr>)
       else if r < 0 then Inr (False, s\<lparr>cn := c\<rparr>)
       else SendBody n Q F cb sid ?d bytes (s\<lparr>cn := c\<rparr>))" for n
    using False 1 assms(5) by (cases vdata) (simp_all add: SendResponse_def read_conn_def)
  have l: "live ?c" "live c" using 1 by (simp_all add: live_def)
  have "\<exists>ok s'. settles (\<lambda>n. SendBody n Q F cb sid ?d bytes (s\<lparr>cn := c\<rparr>)) (ok, s') \<and> live (cn s')"
    by (rule SendBody_settles [OF assms(1,2)]) (simp_all add: 1)
  with l show ?thesis unfolding eq by (intro settles_if2 settles_now2) simp_all
qed

lemma sweep_settles:
  assumes "send_bound Q p" and "readable F" and "benign F"
  shows "reg_live r \<Longrightarrow> \<forall>(k, ref) \<in> set es. objects r ref \<noteq> None \<Longrightarrow>
    \<exists>x r' h'. settles (\<lambda>n. sweep n Q F cb es buffer r h) (x, r', h') \<and> reg_live r'"
proof (induction es arbitrary: buffer r h)
  case Nil
  then show ?case by (intro exI [of _ "([], False, buffer)"] exI [of _ r] exI [of _ h]) simp
next
  case (Cons e es)
  obtain k ref where e: "e = (k, ref)" by (cases e)
  from Cons.prems e obtain c where c: "objects r ref = Some c" "live c" by (auto simp: reg_live_def)
  show ?case
  proof (cases "timed_out c")
    case True
    let ?r = "r\<lparr>connections := um_erase k (connections r), connections_by_id := um_erase (AssignedId c) (connections_by_id r)\<rparr>"
    from Cons.prems e have "reg_live ?r" "\<forall>(k, ref) \<in> set es. objects ?r ref \<noteq> None"
      by (auto simp: reg_live_def)
    from Cons.IH [OF this, of buffer h] obtain freed sf b r' h' where
      s: "settles (\<lambda>n. sweep n Q F cb es buffer ?r h) ((freed, sf, b), r', h')" "reg_live r'" by auto
    have "settles (\<lambda>n. sweep n Q F cb (e # es) buffer r h) ((ref # freed, sf, b), r', h')"
      using True c assms(3) by (simp add: e deref_def benign_def settles_bind [OF s(1)])
    with s(2) show ?thesis by blast
  next
    case False
    from FlushEgress_settles [OF assms(1,2), of "\<lparr>cn = c, hs = h\<rparr>" buffer] c(2) obtain sent b s where
      f: "settles (\<lambda>n. FlushEgress n Q F cb buffer \<lparr>cn = c, hs = h\<rparr>) ((sent, b), s)" "live (cn s)" by auto
    let ?r = "set_object ref (cn s) r"
    from Cons.prems(2) e have "\<forall>(k, ref) \<in> set es. objects ?r ref \<noteq> None" by (auto simp: set_object_def)
    from Cons.IH [OF reg_live_set_object [OF Cons.prems(1) f(2)] this, of "Some b" "hs s"] obtain freed sf b' r' h' where
      s: "settles (\<lambda>n. sweep n Q F cb es (Some b) ?r (hs s)) ((freed, sf, b'), r', h')" "reg_live r'" by auto
    have "settles (\<lambda>n. sweep n Q F cb (e # es) buffer r h) ((freed, sent \<or> sf, b'), r', h')"
      using False c by (simp add: e deref_def settles_bind [OF f(1)] settles_bind [OF s(1)])
    with s(2) show ?thesis by blast
  qed
qed

lemma Loop_round_settles:
  assumes "send_bound Q p" and "readable F" and "benign F" and "reg_ok r" and "reg_live r"
  shows "\<exists>x r' h'. settles (\<lambda>n. Loop_round n Q F cb buffer r h) (x, r', h') \<and> reg_live r'"
proof -
  have "\<forall>(k, ref) \<in> set (connections r). objects r ref \<noteq> None"
    using entries_of_connections [OF assms(4)] by (fastforce simp: entries_of_def registered_def)
  from sweep_settles [OF assms(1-3,5) this, of buffer h] obtain freed sf b r' h' where
    s: "settles (\<lambda>n. sweep n Q F cb (connections r) buffer r h) ((freed, sf, b), r', h')" "reg_live r'" by auto
  have "settles (\<lambda>n. Loop_round n Q F cb buffer r h)
      ((if sf then QUIC_SEND_FAST_INTERVAL_MSEC else QUIC_SEND_SLOW_INTERVAL_MSEC, b), release freed r', h')"
    unfolding Loop_round_def by (rule settles_bind [OF s(1)]) simp
  moreover have "reg_live (release freed r')" using s(2) by (simp add: reg_live_def release_def)
  ultimately show ?thesis by blast
qed

end

lemma Loop_round_fuel_free [fuel_intros]: "fuel_free (\<lambda>n. Loop_round n Q F cb buffer r h)"
  unfolding Loop_round_def by (intro fuel_intros)


section \<open>The steps of a server\<close>

text \<open>The hypotheses on quiche and on freed memory, kept together.\<close>

definition answers_bounded :: "'q quiche \<Rightarrow> freed_memory \<Rightarrow> bool" where
  "answers_bounded Q F \<longleftrightarrow> (\<exists>m. event_bound Q m) \<and> (\<exists>p. send_bound Q p) \<and> readable F"

lemma answers_boundedE:
  assumes "answers_bounded Q F"
  obtains m p where "event_bound Q m" and "send_bound Q p" and "readable F"
  using assms unfolding answers_bounded_def by blast

lemma on_object_settles:
  assumes "reg_live (sender v)" and "objects (sender v) ref = Some c"
    and "\<exists>x s'. settles (\<lambda>n. f n \<lparr>cn = c, hs = host v\<rparr>) (x, s') \<and> live (cn s')"
  shows "\<exists>x v'. settles (\<lambda>n. on_object (f n) ref v) (x, v') \<and> reg_live (sender v')"
proof -
  from assms(3) obtain x s' where f: "settles (\<lambda>n. f n \<lparr>cn = c, hs = host v\<rparr>) (x, s')" "live (cn s')" by blast
  let ?v = "v\<lparr>sender := set_object ref (cn s') (sender v), host := hs s'\<rparr>"
  have "settles (\<lambda>n. on_object (f n) ref v) (x, ?v)"
    using assms(2) by (simp add: on_object_def deref_def settles_bind [OF f(1)])
  moreover have "reg_live (sender ?v)" using reg_live_set_object [OF assms(1) f(2)] by simp
  ultimately show ?thesis by blast
qed

lemma on_object_fuel_free [fuel_intros]:
  "(\<And>s. fuel_free (\<lambda>n. f n s)) \<Longrightarrow> fuel_free (\<lambda>n. on_object (f n) ref v)"
  unfolding on_object_def by (intro fuel_intros)

lemma settles_unit:
  assumes "\<exists>s'. settles f s' \<and> P s'"
  shows "\<exists>x s'. settles (\<lambda>n. rbind (f n) (\<lambda>s. Inr (u, s))) (x, s') \<and> P s'"
proof -
  from assms obtain s' where f: "settles f s'" "P s'" by blast
  have "settles (\<lambda>n. rbind (f n) (\<lambda>s. Inr (u, s))) (u, s')" by (rule settles_bind [OF f(1)]) simp
  with f(2) show ?thesis by blast
qed

lemma settles_snd:
  assumes "\<exists>x v'. settles f (x, v') \<and> P v'"
  shows "\<exists>v'. settles (\<lambda>n. rbind (f n) (\<lambda>(_, v). Inr v)) v' \<and> P v'"
proof -
  from assms obtain x v' where f: "settles f (x, v')" "P v'" by blast
  have "settles (\<lambda>n. rbind (f n) (\<lambda>(_, v). Inr v)) v'" by (rule settles_bind [OF f(1)]) simp
  with f(2) show ?thesis by blast
qed

lemma server_deliver_settles:
  assumes "answers_bounded Q F" and "reg_live (sender v)" and "objects (sender v) ref = Some c"
  shows "\<exists>v'. settles (\<lambda>n. server_deliver n Q F data peer ref v) v' \<and> reg_live (sender v')"
proof -
  obtain m p where b: "event_bound Q m" "send_bound Q p" "readable F" using assms(1) by (rule answers_boundedE)
  have "live (cn \<lparr>cn = c, hs = host v\<rparr>)" using assms(2,3) by (simp add: reg_live_def)
  note d = srvt.OnDatagram_settles [OF b this, of "srv_Authorization (settings v)" data peer]
  show ?thesis
    unfolding server_deliver_def
    by (intro settles_snd on_object_settles [OF assms(2,3)] settles_unit [OF d])
qed

lemma CreateConnection_live:
  assumes "reg_live (sender v)"
  shows "\<exists>res v'. CreateConnection Q d odcid peer v = Inr (res, v') \<and> reg_live (sender v') \<and>
    (\<forall>ref. res = Some ref \<longrightarrow> objects (sender v') ref \<noteq> None)"
proof -
  let ?s = "\<lparr>cn = Initialize True (next_assigned_id v + 1) d, hs = host v\<rparr>"
  obtain ok s where a: "Accept Q peer d odcid ?s = (ok, s)" by fastforce
  then have "ok \<Longrightarrow> live (cn s)" by (auto simp: Accept_def Let_def live_def split: option.splits)
  with a assms show ?thesis
    by (cases ok) (auto simp: CreateConnection_def make_shared_def Add_def deref_def reg_live_def)
qed

lemma server_OnDatagram_settles:
  assumes "answers_bounded Q F" and "server_ok v" and "reg_live (sender v)"
    and "p_header_info P LOCAL_CONN_ID_LEN LOCAL_CONN_ID_LEN MAX_TOKEN_LEN data = (rc, version, scid, d, token)"
    and "\<exists>x. read_token token peer odcid = Inr x"
  shows "\<exists>v'. settles (\<lambda>n. server_OnDatagram n Q P F rd odcid data peer v) v' \<and> reg_live (sender v')"
proof (cases "Find_dcid d (sender v)")
  case (Some ref)
  with Find_registered(1) [OF assms(2)] obtain c where "objects (sender v) ref = Some c"
    by (auto simp: registered_def)
  from server_deliver_settles [OF assms(1,3) this] Some assms(3,4) show ?thesis
    by (cases "rc < 0") (auto simp: server_OnDatagram_def intro: settles_now)
next
  case None
  from assms(5) obtain ok odcid' where r: "read_token token peer odcid = Inr (ok, odcid')" by auto
  from CreateConnection_live [OF assms(3)] obtain res v1 where
    c: "CreateConnection Q d odcid' peer v = Inr (res, v1)" "reg_live (sender v1)"
      "\<forall>ref. res = Some ref \<longrightarrow> objects (sender v1) ref \<noteq> None" by blast
  have "\<exists>v'. settles (\<lambda>n. case res of None \<Rightarrow> Inr v1 | Some ref \<Rightarrow> server_deliver n Q F data peer ref v1) v' \<and> reg_live (sender v')"
    using server_deliver_settles [OF assms(1) c(2)] c(2,3) by (cases res) (auto intro: settles_now)
  moreover have "server_OnDatagram n Q P F rd odcid data peer v =
      (if rc < 0 then Inr v
       else if \<not> p_version_is_supported P version then
         Inr (v\<lparr>host := (host v)\<lparr>net := SendVersionNegotiation P scid d peer (net (host v))\<rparr>\<rparr>)
       else if token = [] then Inr (v\<lparr>host := (host v)\<lparr>net := SendRetry P rd scid d peer (net (host v))\<rparr>\<rparr>)
       else if \<not> ok then Inr v
       else case res of None \<Rightarrow> Inr v1 | Some ref \<Rightarrow> server_deliver n Q F data peer ref v1)" for n
    using None r c(1) assms(4) by (simp add: server_OnDatagram_def)
  ultimately show ?thesis using assms(3) by (simp add: settles_if settles_now)
qed

lemma Respond_settles:
  assumes "answers_bounded Q F" and "server_ok v" and "reg_live (sender v)"
    and "\<And>ref c. Find_id i (sender v) = Some ref \<Longrightarrow> objects (sender v) ref = Some c \<Longrightarrow> timed_out c \<or> http3 c"
  shows "\<exists>v'. settles (\<lambda>n. Respond n Q F i req status info body v) v' \<and> reg_live (sender v')"
proof (cases "closed (host v) \<or> Find_id i (sender v) = None")
  case True
  then have "Respond n Q F i req status info body v = Inr v" for n by (auto simp: Respond_def)
  with assms(3) show ?thesis by (simp add: settles_now)
next
  case False
  obtain m p where b: "event_bound Q m" "send_bound Q p" "readable F" using assms(1) by (rule answers_boundedE)
  from False obtain ref where f: "Find_id i (sender v) = Some ref" by auto
  from Find_registered(2) [OF assms(2) f] obtain c where c: "objects (sender v) ref = Some c" by (auto simp: registered_def)
  let ?s = "\<lparr>cn = c, hs = host v\<rparr>"
  have l: "live (cn ?s)" "timed_out (cn ?s) \<or> http3 (cn ?s)" using assms(3) assms(4) [OF f c] c by (simp_all add: reg_live_def)
  have e: "(if Empty body then 0 else bd_Length body) \<le> 0 \<or> (if Empty body then None else bd_Data body) \<noteq> None"
    by (simp add: Empty_def)
  note s = srvt.SendResponse_settles [OF b(2,3) l e, of "srv_Authorization (settings v)"]
  have "Respond n Q F i req status info body v =
      rbind (on_object (SendResponse n Q F (server_cb Q v) (word_of_int req) (response_headers status info body)
         (if Empty body then None else bd_Data body) (if Empty body then 0 else bd_Length body)) ref v) (\<lambda>(_, v). Inr v)" for n
    using False f by (simp add: Respond_def)
  then show ?thesis by (simp only:) (intro settles_snd on_object_settles [OF assms(3) c] s)
qed

lemma server_Close_total:
  assumes "answers_bounded Q F" and "server_ok v" and "reg_live (sender v)"
  shows "\<exists>v'. server_Close Q i v = Inr v' \<and> reg_live (sender v')"
proof (cases "Find_id i (sender v)")
  case None
  with assms(3) show ?thesis by (simp add: server_Close_def)
next
  case (Some ref)
  obtain m p where b: "event_bound Q m" using assms(1) by (rule answers_boundedE)
  from Some Find_registered(2) [OF assms(2)] obtain c where c: "objects (sender v) ref = Some c" by (auto simp: registered_def)
  with assms(3) have l: "live c" by (simp add: reg_live_def)
  then obtain q where "conn c = Some q" by (auto simp: live_def)
  from Close_total [OF b this] obtain c' where cl: "Close Q exit_reason c = Inr c'" "bounded_by m q c'" by blast
  have "live c'" using cl(2) quiet_frame(2,3,8) [OF Close_quiet [OF cl(1)]] l by (auto simp: live_def bounded_by_def)
  with Some c cl(1) assms(3) show ?thesis
    by (simp add: server_Close_def on_object_def deref_def reg_live_set_object)
qed


text \<open>A step that returned left every object live, whatever fuel it was run with.\<close>

lemma settled_live:
  assumes "\<exists>v'. settles f v' \<and> reg_live (sender v')" and "fuel_free f" and "f n = Inr v'"
  shows "reg_live (sender v')"
proof -
  from assms(1) obtain w where w: "settles f w" "reg_live (sender w)" by blast
  from settled_result [OF assms(2) w(1) assms(3)] w(2) show ?thesis by simp
qed

lemma server_deliver_fuel_free [fuel_intros]: "fuel_free (\<lambda>n. server_deliver n Q F data peer ref v)"
  unfolding server_deliver_def by (intro fuel_intros)

lemma Respond_fuel_free [fuel_intros]: "fuel_free (\<lambda>n. Respond n Q F i req status info body v)"
  unfolding Respond_def by (intro fuel_intros)

lemma server_OnDatagram_live:
  assumes "server_OnDatagram n Q P F rd odcid data peer v = Inr v'" and "answers_bounded Q F" and "server_ok v"
    and "reg_live (sender v)"
  shows "reg_live (sender v')"
  using assms(1)
proof (cases rule: server_OnDatagram_cases)
  case (known rc version scid d token ref)
  with Find_registered(1) [OF assms(3)] obtain c where c: "objects (sender v) ref = Some c" by (auto simp: registered_def)
  show ?thesis
    by (rule settled_live [OF server_deliver_settles [OF assms(2,4) c] server_deliver_fuel_free known(3)])
next
  case (created rc version scid d token odcid' res v1)
  with CreateConnection_live [OF assms(4), of Q d odcid' peer] have v1: "reg_live (sender v1)"
    "\<forall>ref. res = Some ref \<longrightarrow> objects (sender v1) ref \<noteq> None" by auto
  show ?thesis
  proof (cases res)
    case None
    with created v1 show ?thesis by simp
  next
    case (Some ref)
    with v1 obtain c where c: "objects (sender v1) ref = Some c" by auto
    from created(6) Some have "server_deliver n Q F data peer ref v1 = Inr v'" by simp
    with settled_live [OF server_deliver_settles [OF assms(2) v1(1) c] server_deliver_fuel_free] show ?thesis .
  qed
qed (use assms(4) in simp_all)

lemma Respond_live:
  assumes "Respond n Q F i req status info body v = Inr v'" and "answers_bounded Q F" and "server_ok v"
    and "reg_live (sender v)"
  shows "reg_live (sender v')"
proof (cases "\<exists>ref c. \<not> closed (host v) \<and> Find_id i (sender v) = Some ref \<and> objects (sender v) ref = Some c \<and>
    \<not> timed_out c \<and> \<not> http3 c")
  case True
  with assms(1) have False
    by (auto simp: Respond_def on_object_def deref_def SendResponse_def h3_send_response_def call_h3_def elim!: rbindE)
  then show ?thesis ..
next
  case False
  show ?thesis
  proof (cases "closed (host v)")
    case True
    with assms(1,4) show ?thesis by (simp add: Respond_def)
  next
    case is_open: False
    have "\<exists>v'. settles (\<lambda>n. Respond n Q F i req status info body v) v' \<and> reg_live (sender v')"
      by (rule Respond_settles [OF assms(2-4)]) (use False is_open in blast)
    from settled_live [OF this Respond_fuel_free assms(1)] show ?thesis .
  qed
qed

lemma server_timer_settles:
  assumes "answers_bounded Q F" and "server_ok v" and "reg_live (sender v)" and "referenced ref (sender v)"
  shows "\<exists>x v'. settles (\<lambda>n. on_object (\<lambda>s. rbind (OnQuicheTimer n Q F (server_cb Q v) ec s) (\<lambda>s. Inr ((), s))) ref v) (x, v') \<and>
    reg_live (sender v')"
proof -
  obtain m p where b: "event_bound Q m" "send_bound Q p" "readable F" using assms(1) by (rule answers_boundedE)
  have "reg_ok (sender v)" using assms(2) by (simp add: server_ok_def)
  from referenced_registered [OF this assms(4)] obtain c where c: "objects (sender v) ref = Some c"
    by (auto simp: registered_def)
  have "live (cn \<lparr>cn = c, hs = host v\<rparr>)" using assms(3) c by (simp add: reg_live_def)
  note t = srvt.OnQuicheTimer_settles [OF b(2,3) this, of "srv_Authorization (settings v)" ec]
  show ?thesis by (intro on_object_settles [OF assms(3) c] settles_unit [OF t])
qed

lemma server_step_live:
  assumes "server_step Q P F v v'" and "answers_bounded Q F" and "server_ok v" and "reg_live (sender v)"
  shows "reg_live (sender v')"
  using assms(1)
proof cases
  case (srv_datagram n rd odcid data peer)
  then show ?thesis using server_OnDatagram_live assms(2-4) by blast
next
  case (srv_respond n i req status info body)
  then show ?thesis using Respond_live assms(2-4) by blast
next
  case (srv_close i)
  then show ?thesis using server_Close_total [OF assms(2-4), of i] by auto
next
  case (srv_timer n ec ref)
  have "fuel_free (\<lambda>n. on_object (\<lambda>s. rbind (OnQuicheTimer n Q F (server_cb Q v) ec s) (\<lambda>s. Inr ((), s))) ref v)"
    by (intro fuel_intros)
  from server_timer_settles [OF assms(2-4) srv_timer(2)] settled_result [OF this _ srv_timer(1)] show ?thesis by blast
next
  case (srv_loop n buffer interval buffer' r h)
  obtain m p where b: "event_bound Q m" "send_bound Q p" "readable F" using assms(2) by (rule answers_boundedE)
  have "reg_ok (sender v)" using assms(3) by (simp add: server_ok_def)
  from srvt.Loop_round_settles [OF b(2,3) srv_loop(3) this assms(4)]
    settled_result [OF Loop_round_fuel_free _ srv_loop(2)] srv_loop(1) show ?thesis by fastforce
next
  case (srv_host h)
  with assms(4) show ?thesis by simp
qed

lemma server_steps_live:
  assumes "server_steps Q P F (new_server st junk local) v" and "answers_bounded Q F"
  shows "server_ok v \<and> reg_live (sender v)"
  using assms(1)
proof (induction rule: rtranclp_induct)
  case base
  have "reg_live (sender (new_server st junk local))" by (simp add: new_server_def new_registry_def reg_live_def)
  with server_ok_new show ?case by blast
next
  case (step v v')
  then show ?case using server_step_ok server_step_live [OF _ assms(2)] by blast
qed


section \<open>No handler of a server is ever stuck\<close>



lemma next_answer_shorter:
  "next_answer d xs = (x, xs') \<Longrightarrow> length xs' \<le> length xs \<and> (x = d \<or> length xs' < length xs)"
  by (cases xs) auto

lemma event_bound_scripted: "event_bound scripted (\<lambda>q. length (sc_poll q) + length (sc_recv_body q))"
  unfolding event_bound_def by (auto split: prod.splits dest!: next_answer_shorter)

lemma scripted_bounded: "answers_bounded scripted kept_memory"
  unfolding answers_bounded_def readable_def using event_bound_scripted send_bound_scripted by auto


section \<open>The client\<close>

definition client_live :: "'q client \<Rightarrow> bool" where
  "client_live l \<longleftrightarrow> reg_live (cl_sender l) \<and> objects (cl_sender l) (connection l) \<noteq> None"

lemma on_connection_settles:
  assumes "client_live l"
    and "\<And>s. live (cn s) \<Longrightarrow> \<exists>x s'. settles (\<lambda>n. f n s) (x, s') \<and> live (cn s')"
  shows "\<exists>x l'. settles (\<lambda>n. on_connection (f n) l) (x, l') \<and> client_live l'"
proof -
  from assms(1) obtain c where c: "objects (cl_sender l) (connection l) = Some c" "live c"
    by (auto simp: client_live_def reg_live_def)
  from assms(2) [of "\<lparr>cn = c, hs = cl_host l\<rparr>"] c(2) obtain x s' where
    f: "settles (\<lambda>n. f n \<lparr>cn = c, hs = cl_host l\<rparr>) (x, s')" "live (cn s')" by auto
  let ?l = "l\<lparr>cl_sender := set_object (connection l) (cn s') (cl_sender l), cl_host := hs s'\<rparr>"
  have "settles (\<lambda>n. on_connection (f n) l) (x, ?l)"
    using c(1) by (simp add: on_connection_def deref_def settles_bind [OF f(1)])
  moreover have "client_live ?l"
    using assms(1) f(2) by (simp add: client_live_def reg_live_def set_object_def)
  ultimately show ?thesis by blast
qed

lemma client_OnDatagram_settles:
  assumes "answers_bounded Q F" and "client_live l"
  shows "\<exists>l'. settles (\<lambda>n. client_OnDatagram n Q F data peer l) l' \<and> client_live l'"
proof -
  obtain m p where b: "event_bound Q m" "send_bound Q p" "readable F" using assms(1) by (rule answers_boundedE)
  have "\<exists>l'. settles (\<lambda>n. rbind (on_connection (\<lambda>s. rbind (OnDatagram n Q F (client_cb Q l) data peer s) (\<lambda>s. Inr ((), s))) l)
      (\<lambda>(_, l). Inr l)) l' \<and> client_live l'"
    by (intro settles_snd on_connection_settles [OF assms(2)] settles_unit clit.OnDatagram_settles [OF b])
  with assms(2) show ?thesis unfolding client_OnDatagram_def by (intro settles_if settles_now)
qed

lemma OnResolve_settles:
  fixes Q :: "'q quiche"
  assumes "answers_bounded Q F" and "\<And>h sc lo pe. q_connect Q h sc lo pe \<noteq> None"
  shows "\<exists>l'. settles (\<lambda>n. OnResolve n Q F scid (Some ep) (new_client s cert d local)) l' \<and> client_live l'"
proof -
  obtain m p where b: "event_bound Q m" "send_bound Q p" "readable F" using assms(1) by (rule answers_boundedE)
  let ?c0 = "Initialize False 0 d" and ?h = "cl_host (new_client s cert d local :: 'q client)"
  obtain q where q: "q_connect Q QUIC_TLS_CNAME (cid_key scid) (to_sockaddr (local_endpoint ?h)) (to_sockaddr ep) = Some q"
    using assms(2) by blast
  define c where "c = ?c0\<lparr>peer_endpoint := ep, conn := Some q, connection_timer := Some ep, conns_made := 1\<rparr>"
  have con: "Connect Q scid ep \<lparr>cn = ?c0, hs = ?h\<rparr> = (True, \<lparr>cn = c, hs = ?h\<rparr>)" "live c"
    using q by (simp_all add: Connect_def Let_def live_def c_def)
  define l where "l = (new_client s cert d local)\<lparr>resolved_endpoint := ep,
    cl_sender := \<lparr>objects = [0 \<mapsto> c], next_ref = 1, connections = [(cid_key d, 0)], connections_by_id = [(0, 0)]\<rparr>,
    receiving := True\<rparr>"
  have put: "um_put k v [] = [(k, v)]" for k v by (simp add: um_put_def um_find_def)
  have "OnResolve n Q F scid (Some ep) (new_client s cert d local) =
      rbind (on_connection (FlushEgress_local n Q F (client_cb Q l)) l) (\<lambda>(_, l). Inr l)" for n
    using con(1)
    by (simp add: OnResolve_def new_client_def make_shared_def new_registry_def Let_def Add_def deref_def put
        on_connection_def set_object_def l_def)
  moreover have "client_live l" using con(2) by (simp add: l_def new_client_def make_shared_def new_registry_def client_live_def reg_live_def)
  moreover note clit.FlushEgress_local_settles [OF b(2,3)]
  ultimately show ?thesis by (simp only:) (intro settles_snd on_connection_settles)
qed




end
