(* ===== verification/QS_Setup.thy ===== *)
theory QS_Setup
  imports QS_PyApi QS_ServerTotal
begin

text \<open>
  Start-up: the quiche configuration, the socket object and its receive loop, the reading of
  the pinned certificate, the constructors of client and server, and the sender's thread.
  What the operating system, OpenSSL and quiche answer is the parameter \<open>setup_env\<close> or
  \<open>pem_lib\<close>; objects the code has to free are listed as \<open>resource\<close>s.
\<close>

section \<open>Configuration\<close>

datatype config_option =
    CertChain string | PrivKey string | AppProtos bytes | MaxIdleTimeout nat
  | MaxRecvPayload nat | MaxSendPayload nat | MaxData nat
  | StreamDataBidiLocal nat | StreamDataBidiRemote nat | StreamDataUni nat
  | StreamsBidi nat | StreamsUni nat
  | DisableMigration bool | EarlyData | Pacing bool | CongestionBBR | VerifyPeer bool | LogKeys

datatype socket_op = OpenV4 | Bind u16 | ReceiveBuffer nat | SendBufferSize nat | ReuseAddress bool

datatype resource = RConfig | RH3Config | RFile | RCert

record setup_env =
  env_sock :: "socket_op \<Rightarrow> bool"     \<comment> \<open>the operation succeeds; otherwise Boost.Asio throws\<close>
  env_config :: bool                \<comment> \<open>\<open>quiche_config_new\<close> gives an object\<close>
  env_keylog :: bool                \<comment> \<open>\<open>SSLKEYLOGFILE\<close> is set\<close>
  env_h3 :: bool                    \<comment> \<open>\<open>quiche_h3_config_new\<close> gives an object\<close>
  env_alpn :: bytes                 \<comment> \<open>\<open>QUICHE_H3_APPLICATION_PROTOCOL\<close>\<close>

definition MAX_PARALLEL_QUIC_STREAMS :: nat where "MAX_PARALLEL_QUIC_STREAMS = 8"
definition INITIAL_MAX_DATA :: nat where "INITIAL_MAX_DATA = 8 * 1024 * 1024"
definition INITIAL_MAX_STREAM_DATA :: nat where "INITIAL_MAX_STREAM_DATA = 1 * 1024 * 1024"
definition QUIC_IDLE_TIMEOUT_MSEC :: nat where "QUIC_IDLE_TIMEOUT_MSEC = 5000"
definition QUIC_SEND_BUFFER_SIZE :: nat where "QUIC_SEND_BUFFER_SIZE = 8 * 1024 * 1024"

text \<open>The settings in the order of the calls; the results of the two loads are not looked at.\<close>

definition CreateQuicheConfig :: "setup_env \<Rightarrow> string \<Rightarrow> string \<Rightarrow> config_option list option" where
  "CreateQuicheConfig E cert_path key_path =
     (if \<not> env_config E then None
      else Some
        [CertChain cert_path, PrivKey key_path, AppProtos (env_alpn E),
         MaxIdleTimeout QUIC_IDLE_TIMEOUT_MSEC,
         MaxRecvPayload MAX_DATAGRAM_SEND_SIZE, MaxSendPayload MAX_DATAGRAM_SEND_SIZE,
         MaxData INITIAL_MAX_DATA,
         StreamDataBidiLocal INITIAL_MAX_STREAM_DATA, StreamDataBidiRemote INITIAL_MAX_STREAM_DATA,
         StreamDataUni INITIAL_MAX_STREAM_DATA,
         StreamsBidi MAX_PARALLEL_QUIC_STREAMS, StreamsUni MAX_PARALLEL_QUIC_STREAMS,
         DisableMigration True, EarlyData, Pacing True, CongestionBBR, VerifyPeer True])"

section \<open>The socket object\<close>

record quiche_socket =
  socket_ops :: "socket_op list"
  qs_config :: "config_option list option"
  qs_h3_config :: bool

definition socket_setup :: "u16 \<Rightarrow> socket_op list" where
  "socket_setup p = [OpenV4, Bind p, ReceiveBuffer QUIC_SEND_BUFFER_SIZE, SendBufferSize QUIC_SEND_BUFFER_SIZE, ReuseAddress True]"

text \<open>
  The constructor: its result, and the quiche objects that exist afterwards. When it throws,
  the destructor does not run.
\<close>

definition QuicheSocket_new :: "setup_env \<Rightarrow> u16 \<Rightarrow> string \<Rightarrow> string \<Rightarrow> quiche_socket run \<times> resource list" where
  "QuicheSocket_new E p cert_path key_path =
     (if \<not> list_all (env_sock E) (socket_setup p) then (Inl (Uncaught ''boost::system::system_error''), [])
      else
        let config = CreateQuicheConfig E cert_path key_path;
            owned = (if config \<noteq> None then [RConfig] else [])
        in if env_keylog E \<and> config = None then (Inl NullDeref, owned)
           else
             let config = (if env_keylog E then map_option (\<lambda>c. c @ [LogKeys]) config else config)
             in if \<not> env_h3 E then (Inl (Uncaught ''Failed to create HTTP/3 config''), owned)
                else (Inr \<lparr>socket_ops = socket_setup p, qs_config = config, qs_h3_config = True\<rparr>, RH3Config # owned))"

definition QuicheSocket_destroy :: "quiche_socket \<Rightarrow> resource list \<Rightarrow> resource list" where
  "QuicheSocket_destroy q owned =
     (let owned = (if qs_h3_config q then remove1 RH3Config owned else owned)
      in if qs_config q \<noteq> None then remove1 RConfig owned else owned)"

lemma QuicheSocket_released:
  "QuicheSocket_new E p cert_path key_path = (Inr q, owned) \<Longrightarrow> QuicheSocket_destroy q owned = []"
  by (auto simp: QuicheSocket_new_def QuicheSocket_destroy_def Let_def split: if_splits)

section \<open>The pinned certificate\<close>

record 'x pem_lib =
  pem_open :: "string \<Rightarrow> bool"
  pem_read :: "string \<Rightarrow> 'x option"
  i2d_length :: "'x \<Rightarrow> int"
  i2d_write :: "'x \<Rightarrow> int \<times> bytes"    \<comment> \<open>the second call: its result and the bytes it writes\<close>

text \<open>A computation with the list of resources it holds; \<open>CallbackScope\<close> releases one at the end.\<close>

definition CallbackScope :: "resource \<Rightarrow> 'a run \<times> resource list \<Rightarrow> 'a run \<times> resource list" where
  "CallbackScope r x = (case x of (res, owned) \<Rightarrow> (res, remove1 r owned))"

definition LoadPEMCertAsDER :: "'x pem_lib \<Rightarrow> string \<Rightarrow> bytes run \<times> resource list" where
  "LoadPEMCertAsDER L path =
     (if \<not> pem_open L path then (Inl (Uncaught ''Failed to open PEM file''), [])
      else
        let owned = [RFile];
            cert = pem_read L path;
            owned = (if cert = None then owned else RCert # owned);
            owned = remove1 RFile owned
        in case cert of
             None \<Rightarrow> (Inl (Uncaught ''Failed to read PEM certificate''), owned)
           | Some x \<Rightarrow> CallbackScope RCert
               (let der_length = i2d_length L x
                in if der_length < 0 then (Inl (Uncaught ''Failed to determine DER length''), owned)
                   else case i2d_write L x of (r, out) \<Rightarrow>
                     if nat der_length < length out then (Inl OutOfBounds, owned)
                     else if r \<noteq> der_length then (Inl (Uncaught ''Failed to convert PEM to DER''), owned)
                     else (Inr (out @ replicate (nat der_length - length out) 0), owned)))"

text \<open>
  \<open>i2d_X509\<close> as documented: both calls return the length of the encoding, or a negative
  number, and the second writes the encoding.
\<close>

definition i2d_documented :: "'x pem_lib \<Rightarrow> ('x \<Rightarrow> bytes option) \<Rightarrow> bool" where
  "i2d_documented L enc \<longleftrightarrow> (\<forall>x. case enc x of
       None \<Rightarrow> i2d_length L x < 0
     | Some der \<Rightarrow> i2d_length L x = int (length der) \<and> i2d_write L x = (int (length der), der))"

lemma LoadPEMCertAsDER_released: "snd (LoadPEMCertAsDER L path) = []"
  by (simp add: LoadPEMCertAsDER_def CallbackScope_def Let_def split: option.split prod.split)

lemma LoadPEMCertAsDER_result:
  assumes "i2d_documented L enc"
  shows "fst (LoadPEMCertAsDER L path) =
    (if \<not> pem_open L path then Inl (Uncaught ''Failed to open PEM file'')
     else case pem_read L path of None \<Rightarrow> Inl (Uncaught ''Failed to read PEM certificate'')
     | Some x \<Rightarrow> (case enc x of None \<Rightarrow> Inl (Uncaught ''Failed to determine DER length'') | Some der \<Rightarrow> Inr der))"
proof (cases "pem_read L path")
  case None
  then show ?thesis by (simp add: LoadPEMCertAsDER_def)
next
  case (Some x)
  with assms [unfolded i2d_documented_def, rule_format, of x] show ?thesis
    by (auto simp: LoadPEMCertAsDER_def CallbackScope_def Let_def split: option.splits)
qed


section \<open>The constructors and the C interface around them\<close>

text \<open>\<open>d\<close>: the \<open>ConnectionId()\<close> the client starts with; \<open>local\<close>: the socket's address.\<close>

definition QuicSendClient_new ::
    "'x pem_lib \<Rightarrow> setup_env \<Rightarrow> conn_id \<Rightarrow> endpoint \<Rightarrow> client_settings \<Rightarrow> 'q client run" where
  "QuicSendClient_new L E d local s =
     rbind (fst (LoadPEMCertAsDER L (cs_CertPath s))) (\<lambda>cert.
     rbind (fst (QuicheSocket_new E 0 '''' '''')) (\<lambda>qs. Inr (new_client s cert d local)))"

definition QuicSendServer_new :: "setup_env \<Rightarrow> u16 \<Rightarrow> endpoint \<Rightarrow> server_settings \<Rightarrow> 'q server run" where
  "QuicSendServer_new E junk local s =
     rbind (fst (QuicheSocket_new E (srv_Port s) (srv_CertPath s) (srv_KeyPath s))) (\<lambda>qs.
       Inr (new_server s junk local))"

text \<open>\<open>extern "C"\<close>: an exception that leaves the constructor leaves the library.\<close>

definition client_handle ::
    "'x pem_lib \<Rightarrow> setup_env \<Rightarrow> conn_id \<Rightarrow> endpoint \<Rightarrow> py_client_settings \<Rightarrow> 'q client option run" where
  "client_handle L E d local s =
     (case quicsend_client_create s of
        None \<Rightarrow> Inr None
      | Some cs \<Rightarrow> rbind (QuicSendClient_new L E d local cs) (\<lambda>l. Inr (Some l)))"

definition server_handle ::
    "setup_env \<Rightarrow> u16 \<Rightarrow> endpoint \<Rightarrow> py_server_settings \<Rightarrow> 'q server option run" where
  "server_handle E junk local s =
     (case quicsend_server_create s of
        None \<Rightarrow> Inr None
      | Some ss \<Rightarrow> rbind (QuicSendServer_new E junk local ss) (\<lambda>v. Inr (Some v)))"

text \<open>The environment in which every call of the set-up succeeds.\<close>

definition env_ok :: "setup_env \<Rightarrow> bool" where
  "env_ok E \<longleftrightarrow> (\<forall>op. env_sock E op) \<and> env_config E \<and> env_h3 E"

lemma QuicheSocket_new_ok: "env_ok E \<Longrightarrow> \<exists>qs. fst (QuicheSocket_new E p cert_path key_path) = Inr qs"
  by (simp add: env_ok_def QuicheSocket_new_def CreateQuicheConfig_def Let_def list_all_iff)

lemma client_handle_created:
  assumes "client_handle L E d local s = Inr (Some l)"
  obtains cs cert where "quicsend_client_create s = Some cs" and "l = new_client cs cert d local"
    and "fst (LoadPEMCertAsDER L (c_str (pcs_CertPath s))) = Inr cert"
proof -
  from assms obtain cs where cs: "quicsend_client_create s = Some cs" "QuicSendClient_new L E d local cs = Inr l"
    by (auto simp: client_handle_def elim!: rbindE split: option.splits)
  then obtain cert where "fst (LoadPEMCertAsDER L (cs_CertPath cs)) = Inr cert" "l = new_client cs cert d local"
    by (auto simp: QuicSendClient_new_def elim!: rbindE)
  moreover have "cs_CertPath cs = c_str (pcs_CertPath s)"
    using cs(1) by (auto simp: quicsend_client_create_def Let_def split: if_splits)
  ultimately show ?thesis using that cs(1) by simp
qed

text \<open>
  C30: What \<open>quicsend_client_create\<close> does with its settings. It returns null exactly if host,
  port or certificate path is missing; with a certificate that can be read it returns a client
  that holds this certificate; and a path that cannot be opened, or is not a PEM certificate,
  makes an exception leave the C function.
\<close>

theorem client_create_outcomes:
  assumes "i2d_documented L enc" and "env_ok E"
  shows "client_handle L E d local s =
    (if c_str (pcs_Host s) = '''' \<or> pcs_Port s = 0 \<or> c_str (pcs_CertPath s) = '''' then Inr None
     else if \<not> pem_open L (c_str (pcs_CertPath s)) then Inl (Uncaught ''Failed to open PEM file'')
     else case pem_read L (c_str (pcs_CertPath s)) of
       None \<Rightarrow> Inl (Uncaught ''Failed to read PEM certificate'')
     | Some x \<Rightarrow> (case enc x of None \<Rightarrow> Inl (Uncaught ''Failed to determine DER length'')
         | Some der \<Rightarrow> Inr (Some (new_client (the (quicsend_client_create s)) der d local))))"
proof -
  obtain qs where "fst (QuicheSocket_new E 0 '''' '''') = Inr qs" using QuicheSocket_new_ok [OF assms(2)] by blast
  then show ?thesis
    by (auto simp: client_handle_def QuicSendClient_new_def quicsend_client_create_def Let_def
        LoadPEMCertAsDER_result [OF assms(1)] split: option.split)
qed

definition ex_pem :: "unit pem_lib" where
  "ex_pem = \<lparr>pem_open = (\<lambda>p. p \<noteq> ''none''), pem_read = (\<lambda>p. if p = ''cert.pem'' then Some () else None),
     i2d_length = (\<lambda>_. 2), i2d_write = (\<lambda>_. (2, [48, 0]))\<rparr>"

definition ex_env :: setup_env where
  "ex_env = \<lparr>env_sock = (\<lambda>_. True), env_config = True, env_keylog = False, env_h3 = True, env_alpn = [2, 104, 51]\<rparr>"

definition ex_py_client :: "string \<Rightarrow> py_client_settings" where
  "ex_py_client path = \<lparr>pcs_AuthToken = Some ''t'', pcs_Host = Some ''h'', pcs_CertPath = Some path, pcs_Port = 443\<rparr>"

lemma ex_pem_documented: "i2d_documented ex_pem (\<lambda>_. Some [48, 0])"
  by (simp add: i2d_documented_def ex_pem_def)

lemma ex_env_ok: "env_ok ex_env"
  by (simp add: env_ok_def ex_env_def)

theorem client_create_outcomes_witness:
  "(\<exists>l :: script client. client_handle ex_pem ex_env ex_dcid0 script_peer (ex_py_client ''cert.pem'') = Inr (Some l) \<and>
      cert_der l = [48, 0]) \<and>
   client_handle ex_pem ex_env ex_dcid0 script_peer (ex_py_client '''') = (Inr None :: script client option run) \<and>
   client_handle ex_pem ex_env ex_dcid0 script_peer (ex_py_client ''none'') =
     (Inl (Uncaught ''Failed to open PEM file'') :: script client option run)"
  unfolding client_create_outcomes [OF ex_pem_documented ex_env_ok]
  by (simp add: ex_py_client_def c_str_def ex_pem_def new_client_def make_shared_def)

section \<open>The certificate from the file to the decision\<close>

text \<open>
  C14: A client trusts exactly the certificate in its file. When the handshake of a created
  client's connection is reported, the connection is marked and a Connect event posted if the
  peer's certificate is byte for byte the encoding of the file's certificate; otherwise the
  connection is closed, stays unmarked and nothing is posted.
\<close>

theorem certificate_pinned:
  assumes "client_handle L E d local s = Inr (Some l)" and "i2d_documented L enc"
    and "pem_read L (c_str (pcs_CertPath s)) = Some x" and "enc x = Some der"
    and "conn (cn st) = Some q" and "length der < 2 ^ 31" and "length (q_peer_cert Q q) < 2 ^ 31"
  shows "on_connect (client_cb Q l) i p st = Inr
    (if q_peer_cert Q q = der
     then post (new_event\<lparr>ev_Type := ConnectEvent, ev_ConnectionAssignedId := i, ev_PeerEndpoint := p\<rparr>)
            (st\<lparr>cn := (cn st)\<lparr>connected := True\<rparr>\<rparr>)
     else st\<lparr>cn := (cn st)\<lparr>conn := Some (q_close Q cert_reason q), calls := calls (cn st) @ [CallClose cert_reason]\<rparr>\<rparr>)"
proof -
  from assms(1) obtain cs cert where l: "l = new_client cs cert d local"
    and "fst (LoadPEMCertAsDER L (c_str (pcs_CertPath s))) = Inr cert" by (rule client_handle_created)
  with LoadPEMCertAsDER_result [OF assms(2), of "c_str (pcs_CertPath s)"] assms(3,4) have "cert = der"
    by (auto split: if_splits)
  then have "cert_der l = der" by (simp add: l new_client_def split: prod.split)
  with certificate_checked [OF assms(5-7)] show ?thesis
    by (simp add: client_callbacks_def client_on_connect_def)
qed


definition ex_pinned :: "bytes \<Rightarrow> script cst" where
  "ex_pinned cert = \<lparr>cn = script_conn False (idle\<lparr>sc_cert := cert\<rparr>), hs = script_host\<rparr>"

theorem certificate_pinned_witness:
  "\<exists>l. client_handle ex_pem ex_env ex_dcid0 script_peer (ex_py_client ''cert.pem'') = Inr (Some l) \<and>
     (\<exists>st. on_connect (client_cb scripted l) 0 ex_ep (ex_pinned [48, 0]) = Inr st \<and> connected (cn st)) \<and>
     (\<exists>st. on_connect (client_cb scripted l) 0 ex_ep (ex_pinned [48, 1]) = Inr st \<and> \<not> connected (cn st))"
proof -
  let ?path = "c_str (pcs_CertPath (ex_py_client ''cert.pem''))"
  have path: "?path = ''cert.pem''" by (simp add: ex_py_client_def c_str_def)
  have r: "fst (LoadPEMCertAsDER ex_pem ''cert.pem'') = Inr [48, 0]"
    unfolding LoadPEMCertAsDER_result [OF ex_pem_documented] by (simp add: ex_pem_def)
  obtain qs where "fst (QuicheSocket_new ex_env 0 '''' '''') = Inr qs" using QuicheSocket_new_ok [OF ex_env_ok] by blast
  with r obtain l :: "script client" where
    l: "client_handle ex_pem ex_env ex_dcid0 script_peer (ex_py_client ''cert.pem'') = Inr (Some l)"
    by (auto simp: client_handle_def QuicSendClient_new_def quicsend_client_create_def ex_py_client_def c_str_def)
  have p: "pem_read ex_pem ?path = Some ()" by (simp add: path ex_pem_def)
  have q: "conn (cn (ex_pinned cert)) = Some (idle\<lparr>sc_cert := cert\<rparr>)" for cert by (simp add: ex_pinned_def script_defs)
  show ?thesis
    using l certificate_pinned [OF l ex_pem_documented p refl q, of scripted "[48, 0]" 0 ex_ep]
      certificate_pinned [OF l ex_pem_documented p refl q, of scripted "[48, 1]" 0 ex_ep]
    by (simp add: ex_pinned_def script_defs)
qed

section \<open>The receive loop\<close>

text \<open>
  What \<open>async_receive_from\<close> completes with. The handler calls \<open>on_datagram_\<close> for a datagram
  that is not empty and then starts the next receive; an exception of the callback leaves it
  before that.
\<close>

record completion =
  co_error :: bool
  co_data :: bytes
  co_peer :: endpoint

definition on_receive :: "('z completion_scheme \<Rightarrow> 's \<Rightarrow> 's run) \<Rightarrow> 'z completion_scheme \<Rightarrow> 's \<Rightarrow> 's run" where
  "on_receive on_datagram c s =
     (if \<not> co_error c \<and> 0 < length (co_data c) then on_datagram c s else Inr s)"

fun StartReceive :: "('z completion_scheme \<Rightarrow> 's \<Rightarrow> 's run) \<Rightarrow> 'z completion_scheme list \<Rightarrow> 's \<Rightarrow> 's run" where
  "StartReceive on_datagram [] s = Inr s"
| "StartReceive on_datagram (c # cs) s = rbind (on_receive on_datagram c s) (StartReceive on_datagram cs)"

text \<open>For the server: the random values and the uninitialised id of each call come with it.\<close>

record server_completion = completion +
  co_rd :: "nat \<Rightarrow> u32"
  co_odcid :: conn_id

definition server_receive ::
    "nat \<Rightarrow> 'q quiche \<Rightarrow> packet_lib \<Rightarrow> freed_memory \<Rightarrow> server_completion list \<Rightarrow> 'q server \<Rightarrow> 'q server run" where
  "server_receive n Q P F =
     StartReceive (\<lambda>c. server_OnDatagram n Q P F (co_rd c) (co_odcid c) (co_data c) (co_peer c))"

definition client_receive ::
    "nat \<Rightarrow> 'q quiche \<Rightarrow> freed_memory \<Rightarrow> completion list \<Rightarrow> 'q client \<Rightarrow> 'q client run" where
  "client_receive n Q F = StartReceive (\<lambda>c. client_OnDatagram n Q F (co_data c) (co_peer c))"

lemma server_OnDatagram_next_id:
  assumes "server_OnDatagram n Q P F rd odcid data peer v = Inr v'" and "server_ok v" and "next_assigned_id v \<noteq> - 1"
  shows "unat (next_assigned_id v') \<le> unat (next_assigned_id v) + 1"
  using assms(1)
proof (cases rule: server_OnDatagram_cases)
  case (known rc version scid d token ref)
  with Find_registered(1) [OF assms(2)] obtain c where "registered (sender v) ref c" by blast
  from server_deliver_step [OF known(3) assms(2) this] show ?thesis by (simp add: object_step_def)
next
  case (created rc version scid d token odcid' res v1)
  from CreateConnection_spec [OF created(5) assms(2) created(2) assms(3)] have
    c: "created d v res v1" .
  then have "unat (next_assigned_id v1) \<le> unat (next_assigned_id v) + 1"
    using unatSuc [of "next_assigned_id v"] assms(3) by (simp add: created_def add.commute eq_neg_iff_add_eq_0)
  moreover have "next_assigned_id v' = next_assigned_id v1"
  proof (cases res)
    case (Some ref)
    with c obtain e where "server_ok v1" "registered (sender v1) ref e" by (auto simp: created_def)
    with server_deliver_step created(6) Some show ?thesis by (fastforce simp: object_step_def)
  qed (use created in simp)
  ultimately show ?thesis by simp
qed simp_all

text \<open>The datagrams whose tokens \<open>read_token\<close> can read, with or without accepting them.\<close>

definition readable_token :: "packet_lib \<Rightarrow> server_completion \<Rightarrow> bool" where
  "readable_token P c \<longleftrightarrow>
     (case p_header_info P LOCAL_CONN_ID_LEN LOCAL_CONN_ID_LEN MAX_TOKEN_LEN (co_data c) of
        (rc, version, scid, d, token) \<Rightarrow> \<exists>x. read_token token (co_peer c) (co_odcid c) = Inr x)"

lemma server_receive_settles:
  assumes b: "answers_bounded Q F"
  shows "server_ok v \<Longrightarrow> reg_live (sender v) \<Longrightarrow> \<forall>c \<in> set cs. readable_token P c \<Longrightarrow>
    unat (next_assigned_id v) + length cs < 2 ^ 64 - 1 \<Longrightarrow>
    \<exists>v'. settles (\<lambda>n. server_receive n Q P F cs v) v' \<and> server_steps Q P F v v'"
proof (induction cs arbitrary: v)
  case Nil
  then show ?case by (auto simp: server_receive_def intro: settles_now)
next
  case (Cons c cs)
  let ?f = "\<lambda>n c. server_OnDatagram n Q P F (co_rd c) (co_odcid c) (co_data c) (co_peer c)"
  have id: "next_assigned_id v \<noteq> - 1" using Cons.prems(4) by (auto simp: unsigned_minus_1_eq_mask mask_eq_exp_minus_1)
  have "\<exists>v1. settles (\<lambda>n. on_receive (?f n) c v) v1 \<and> server_steps Q P F v v1 \<and> server_ok v1 \<and> reg_live (sender v1) \<and>
      unat (next_assigned_id v1) \<le> unat (next_assigned_id v) + 1"
  proof (cases "\<not> co_error c \<and> 0 < length (co_data c)")
    case False
    with Cons.prems show ?thesis by (auto simp: on_receive_def intro!: settles_now)
  next
    case True
    obtain rc version scid d token where
      h: "p_header_info P LOCAL_CONN_ID_LEN LOCAL_CONN_ID_LEN MAX_TOKEN_LEN (co_data c) = (rc, version, scid, d, token)"
      by (metis surj_pair)
    with Cons.prems(3) have "\<exists>x. read_token token (co_peer c) (co_odcid c) = Inr x" by (simp add: readable_token_def)
    from server_OnDatagram_settles [OF b Cons.prems(1,2) h this, of "co_rd c"] obtain v1 where
      v1: "settles (\<lambda>n. ?f n c v) v1" "reg_live (sender v1)" by blast
    then obtain N where N: "?f N c v = Inr v1" unfolding settles_def by blast
    have "server_step Q P F v v1" by (rule srv_datagram [OF N id])
    with v1 server_OnDatagram_ok [OF N Cons.prems(1) id] server_OnDatagram_next_id [OF N Cons.prems(1) id] True show ?thesis
      by (intro exI [of _ v1]) (auto simp: on_receive_def)
  qed
  then obtain v1 where v1: "settles (\<lambda>n. on_receive (?f n) c v) v1" "server_steps Q P F v v1" "server_ok v1"
    "reg_live (sender v1)" "unat (next_assigned_id v1) \<le> unat (next_assigned_id v) + 1" by blast
  with Cons.prems(3,4) Cons.IH [OF v1(3,4)] obtain v2 where
    v2: "settles (\<lambda>n. server_receive n Q P F cs v1) v2" "server_steps Q P F v1 v2" by auto
  have "settles (\<lambda>n. server_receive n Q P F (c # cs) v) v2"
    using settles_bind [OF v1(1), of "\<lambda>n. server_receive n Q P F cs" v2] v2(1) by (simp add: server_receive_def)
  with v1(2) v2(2) show ?case by (blast intro: rtranclp_trans)
qed



definition ex_traffic :: "server_completion list" where
  "ex_traffic =
     [\<lparr>co_error = False, co_data = [0], co_peer = ex_ep, co_rd = (\<lambda>_. 0), co_odcid = ex_cid\<rparr>,
      \<lparr>co_error = True, co_data = [], co_peer = ex_ep, co_rd = (\<lambda>_. 0), co_odcid = ex_cid\<rparr>,
      \<lparr>co_error = False, co_data = [1], co_peer = ex_ep, co_rd = (\<lambda>_. 0), co_odcid = ex_cid\<rparr>,
      \<lparr>co_error = False, co_data = [1, 2], co_peer = ex_ep, co_rd = (\<lambda>_. 0), co_odcid = ex_cid\<rparr>]"

lemma ex_traffic_readable: "\<forall>c \<in> set ex_traffic. readable_token ex_packets c"
proof -
  have "read_token [] ex_ep ex_cid = Inr (False, ex_cid)" by (simp add: read_token_def)
  with ex_token show ?thesis by (simp add: ex_traffic_def readable_token_def ex_packets_def) blast
qed


section \<open>The sender's thread\<close>

text \<open>
  \<open>Loop\<close>: one element of \<open>env\<close> per wake-up with \<open>terminated_\<close> still false, what the other
  threads did to registry and host during the sleep. \<open>slept\<close> collects the intervals slept.
\<close>

fun Loop_iterations ::
    "nat \<Rightarrow> 'q quiche \<Rightarrow> freed_memory \<Rightarrow> 'q callbacks \<Rightarrow> ('q registry \<times> host \<Rightarrow> 'q registry \<times> host) list \<Rightarrow>
     nat \<Rightarrow> nat option \<Rightarrow> 'q registry \<Rightarrow> host \<Rightarrow> ((nat list \<times> nat option) \<times> 'q registry \<times> host) run" where
  "Loop_iterations n Q F cb [] interval buffer r h = Inr (([], buffer), r, h)"
| "Loop_iterations n Q F cb (e # env) interval buffer r h =
     (case e (r, h) of (r, h) \<Rightarrow>
        rbind (Loop_round n Q F cb buffer r h) (\<lambda>((interval', buffer), r, h).
        rbind (Loop_iterations n Q F cb env interval' buffer r h) (\<lambda>((slept, buffer), r, h).
          Inr ((interval # slept, buffer), r, h))))"

definition Loop ::
    "nat \<Rightarrow> 'q quiche \<Rightarrow> freed_memory \<Rightarrow> 'q callbacks \<Rightarrow> ('q registry \<times> host \<Rightarrow> 'q registry \<times> host) list \<Rightarrow>
     'q registry \<Rightarrow> host \<Rightarrow> ((nat list \<times> nat option) \<times> 'q registry \<times> host) run" where
  "Loop n Q F cb env r h =
     (case sock_Allocate (net h) of (b, s) \<Rightarrow>
        Loop_iterations n Q F cb env QUIC_SEND_SLOW_INTERVAL_MSEC (Some b) r (h\<lparr>net := s\<rparr>))"

definition sound_env :: "('q registry \<times> host \<Rightarrow> 'q registry \<times> host) list \<Rightarrow> bool" where
  "sound_env env \<longleftrightarrow> (\<forall>e \<in> set env. \<forall>r h r' h'. e (r, h) = (r', h') \<longrightarrow> reg_ok r \<and> reg_live r \<longrightarrow> reg_ok r' \<and> reg_live r')"

lemma Loop_iterations_settles:
  assumes b: "answers_bounded Q F" and "benign F"
  shows "sound_env env \<Longrightarrow> reg_ok r \<Longrightarrow> reg_live r \<Longrightarrow>
    \<exists>slept b' r' h'. settles (\<lambda>n. Loop_iterations n Q F (server_callbacks Q auth) env interval buffer r h) ((slept, b'), r', h') \<and>
      length slept = length env \<and> reg_ok r' \<and> reg_live r'"
proof (induction env arbitrary: interval buffer r h)
  case Nil
  then show ?case
    by (intro exI [of _ "[]"] exI [of _ buffer] exI [of _ r] exI [of _ h]) simp
next
  case (Cons e env)
  obtain r1 h1 where e: "e (r, h) = (r1, h1)" by fastforce
  with Cons.prems have r1: "reg_ok r1" "reg_live r1" and env: "sound_env env" by (auto simp: sound_env_def)
  obtain m p where "send_bound Q p" "readable F" using b by (rule answers_boundedE)
  from srvt.Loop_round_settles [OF this assms(2) r1, of auth buffer h1] obtain i b2 r2 h2 where
    l: "settles (\<lambda>n. Loop_round n Q F (server_callbacks Q auth) buffer r1 h1) ((i, b2), r2, h2)" "reg_live r2" by auto
  then obtain n where "Loop_round n Q F (server_callbacks Q auth) buffer r1 h1 = Inr ((i, b2), r2, h2)"
    unfolding settles_def by blast
  from srv.Loop_round_spec [OF this assms(2) r1(1)] have "reg_ok r2" by (auto simp: swept_def)
  from Cons.IH [OF env this l(2), of i b2 h2] obtain slept b3 r3 h3 where
    rest: "settles (\<lambda>n. Loop_iterations n Q F (server_callbacks Q auth) env i b2 r2 h2) ((slept, b3), r3, h3)"
      "length slept = length env" "reg_ok r3" "reg_live r3" by blast
  have "settles (\<lambda>n. Loop_iterations n Q F (server_callbacks Q auth) (e # env) interval buffer r h) ((interval # slept, b3), r3, h3)"
    by (simp add: e settles_bind [OF l(1)] settles_bind [OF rest(1)])
  with rest(2-4) show ?case by force
qed

lemma Loop_settles:
  assumes "answers_bounded Q F" and "benign F" and "sound_env env" and "reg_ok r" and "reg_live r"
  shows "\<exists>slept b r' h'. settles (\<lambda>n. Loop n Q F (server_callbacks Q auth) env r h) ((slept, b), r', h') \<and>
    length slept = length env"
proof -
  obtain b s where "sock_Allocate (net h) = (b, s)" by fastforce
  with Loop_iterations_settles [OF assms, of auth QUIC_SEND_SLOW_INTERVAL_MSEC "Some b" "h\<lparr>net := s\<rparr>"] show ?thesis
    by (auto simp: Loop_def)
qed

end
